theory Spec2Isabelle
  imports Main "HOL-Library.Char_ord" "HOL-Library.List_Lexorder"
    "HOL-Library.Multiset" "HOL-Library.Word"
begin

unbundle bit_operations_syntax

section \<open>Documents and the upsert sink\<close>

text \<open>
  A record returned by the remote API and a document of the MongoDB collection are JSON
  objects. The data set delivers every value as a string, so a document is a finite map
  from field names to strings. The identifier \<open>_id\<close> that the store adds to a new
  document is left out: no operation of \<open>fetch_crime_data\<close> reads it.
  The collection is the list of its documents in natural (insertion) order.
\<close>

type_synonym document = "string \<rightharpoonup> string"

text \<open>
  \<open>UpdateOne({"report_number": v}, {"$set": record}, upsert=True)\<close>: the first document
  whose \<open>report_number\<close> equals \<open>v\<close> gets every field of \<open>record\<close> set; when no
  document matches, a new one is created from the equality condition of the filter and
  the \<open>$set\<close> fields. The second component is the operation's \<open>upserted_count\<close>.
\<close>

fun update_one :: "string \<Rightarrow> document \<Rightarrow> document list \<Rightarrow> document list \<times> nat" where
  "update_one v r [] = ([[''report_number'' \<mapsto> v] ++ r], 1)"
| "update_one v r (d # ds) =
     (if d ''report_number'' = Some v then ((d ++ r) # ds, 0)
      else (case update_one v r ds of (ds', n) \<Rightarrow> (d # ds', n)))"

text \<open>
  The list comprehension of lines 100-107: one operation per record of the batch that
  has a \<open>report_number\<close>, keyed by that value.
\<close>

fun operations :: "document list \<Rightarrow> (string \<times> document) list" where
  "operations [] = []"
| "operations (r # batch) =
     (case r ''report_number'' of
        None \<Rightarrow> operations batch
      | Some v \<Rightarrow> (v, r) # operations batch)"

text \<open>
  The operations of a bulk write, executed one after the other in the order given; the second
  component adds up the documents created (\<open>upserted_count\<close>).
\<close>

fun execute :: "(string \<times> document) list \<Rightarrow> document list \<Rightarrow> document list \<times> nat" where
  "execute [] ds = (ds, 0)"
| "execute ((v, r) # ops) ds =
     (case update_one v r ds of (ds1, n) \<Rightarrow>
        (case execute ops ds1 of (ds2, m) \<Rightarrow> (ds2, n + m)))"

text \<open>
  \<open>collection.bulk_write(operations, ordered=False)\<close>: with \<open>ordered=False\<close> the store is
  free to execute the operations in any order. The order it chooses is the parameter
  \<open>order\<close>, of which only \<open>unordered\<close> is known: it rearranges the operations and neither
  drops nor adds one.
\<close>

definition bulk_write ::
  "((string \<times> document) list \<Rightarrow> (string \<times> document) list) \<Rightarrow>
   (string \<times> document) list \<Rightarrow> document list \<Rightarrow> document list \<times> nat" where
  "bulk_write order ops ds = execute (order ops) ds"

definition unordered :: "((string \<times> document) list \<Rightarrow> (string \<times> document) list) \<Rightarrow> bool" where
  "unordered order = (\<forall>ops. mset (order ops) = mset ops)"

text \<open>Lines 100-111: the write of one fetched page; no write at all for an empty operation list.\<close>

definition upsert_batch ::
  "((string \<times> document) list \<Rightarrow> (string \<times> document) list) \<Rightarrow>
   document list \<Rightarrow> document list \<Rightarrow> document list \<times> nat" where
  "upsert_batch order batch ds =
     (let ops = operations batch in if ops = [] then (ds, 0) else bulk_write order ops ds)"

text \<open>
  Example data: a sink of two documents, and a fetched page of three records: one with the
  key of a stored document, one with a new key and one without a key. Two orders of
  execution: the order of the list and the reverse one.
\<close>

definition ex_stored :: document where
  "ex_stored = [''report_number'' \<mapsto> ''2025-000001'', ''precinct'' \<mapsto> ''North'']"

definition ex_other :: document where
  "ex_other = [''report_number'' \<mapsto> ''2024-000009'', ''precinct'' \<mapsto> ''West'']"

definition ex_record :: document where
  "ex_record = [''report_number'' \<mapsto> ''2025-000001'', ''sector'' \<mapsto> ''B'']"

definition ex_new :: document where
  "ex_new = [''report_number'' \<mapsto> ''2025-000002'', ''sector'' \<mapsto> ''C'']"

definition ex_nokey :: document where
  "ex_nokey = [''sector'' \<mapsto> ''D'']"

definition ex_sink :: "document list" where
  "ex_sink = [ex_other, ex_stored]"

definition ex_page :: "document list" where
  "ex_page = [ex_record, ex_nokey, ex_new]"

definition in_list_order :: "(string \<times> document) list \<Rightarrow> (string \<times> document) list" where
  "in_list_order ops = ops"

definition in_reverse_order :: "(string \<times> document) list \<Rightarrow> (string \<times> document) list" where
  "in_reverse_order ops = rev ops"

subsection \<open>Auxiliary notions for reasoning about the sink\<close>

text \<open>
  The document an operation with key \<open>v\<close> works on: the first one of the collection whose
  \<open>report_number\<close> is \<open>v\<close>, and the document the operation starts from when there is none.
\<close>

definition lookup_doc :: "string \<Rightarrow> document list \<Rightarrow> document option" where
  "lookup_doc v ds = find (\<lambda>d. d ''report_number'' = Some v) ds"

definition base_doc :: "string \<Rightarrow> document list \<Rightarrow> document" where
  "base_doc v ds = (case lookup_doc v ds of Some d \<Rightarrow> d | None \<Rightarrow> [''report_number'' \<mapsto> v])"

definition wf_ops :: "(string \<times> document) list \<Rightarrow> bool" where
  "wf_ops ops = (\<forall>(v, r) \<in> set ops. r ''report_number'' = Some v)"

fun merge_for :: "string \<Rightarrow> (string \<times> document) list \<Rightarrow> document \<Rightarrow> document" where
  "merge_for w [] d = d"
| "merge_for w ((v, r) # ops) d = merge_for w ops (if v = w then d ++ r else d)"

fun upd_firsts :: "(string \<Rightarrow> document \<Rightarrow> document) \<Rightarrow> string set \<Rightarrow> document list \<Rightarrow> document list" where
  "upd_firsts g seen [] = []"
| "upd_firsts g seen (d # ds) =
     (case d ''report_number'' of
        None \<Rightarrow> d # upd_firsts g seen ds
      | Some v \<Rightarrow> if v \<in> seen then d # upd_firsts g seen ds
                  else g v d # upd_firsts g (insert v seen) ds)"

section \<open>The cleaning pipeline\<close>

subsection \<open>Column names\<close>

text \<open>
  \<open>str.lower\<close>, \<open>str.replace(old, new)\<close> for a non-empty \<open>old\<close> and \<open>str.strip(chars)\<close> on
  ASCII strings.
\<close>

definition lower_char :: "char \<Rightarrow> char" where
  "lower_char c =
     (let n = (of_char c :: nat) in if 65 \<le> n \<and> n \<le> 90 then char_of (n + 32) else c)"

definition str_lower :: "string \<Rightarrow> string" where
  "str_lower s = map lower_char s"

function str_replace :: "string \<Rightarrow> string \<Rightarrow> string \<Rightarrow> string" where
  "str_replace old new [] = []"
| "str_replace old new (c # s) =
     (if old \<noteq> [] \<and> take (length old) (c # s) = old
      then new @ str_replace old new (drop (length old) (c # s))
      else c # str_replace old new s)"
  by pat_completeness auto
termination
  by (relation "measure (\<lambda>(old, new, s). length s)") (auto simp: Suc_le_eq)

definition str_strip :: "char \<Rightarrow> string \<Rightarrow> string" where
  "str_strip ch s = rev (dropWhile (\<lambda>c. c = ch) (rev (dropWhile (\<lambda>c. c = ch) s)))"

text \<open>Lines 185-191.\<close>

definition normalize_column :: "string \<Rightarrow> string" where
  "normalize_column name =
     str_strip (CHR ''_'')
       (str_replace ''__'' ''_''
         (str_replace '' '' ''_''
           (str_replace ''nibrs'' '''' (str_lower name))))"


subsection \<open>The ISO-8601 pattern\<close>

text \<open>
  Regular expressions without repetition are all that \<open>iso_8601_pattern\<close> needs; a string
  matches when the derivative by its characters accepts the empty word.
\<close>

datatype rx = Eps | Cls "char list" | Seq rx rx | Alt rx rx | Opt rx

fun nullable :: "rx \<Rightarrow> bool" where
  "nullable Eps = True"
| "nullable (Cls cs) = False"
| "nullable (Seq a b) = (nullable a \<and> nullable b)"
| "nullable (Alt a b) = (nullable a \<or> nullable b)"
| "nullable (Opt a) = True"

fun deriv :: "char \<Rightarrow> rx \<Rightarrow> rx" where
  "deriv c Eps = Cls []"
| "deriv c (Cls cs) = (if c \<in> set cs then Eps else Cls [])"
| "deriv c (Seq a b) =
     (if nullable a then Alt (Seq (deriv c a) b) (deriv c b) else Seq (deriv c a) b)"
| "deriv c (Alt a b) = Alt (deriv c a) (deriv c b)"
| "deriv c (Opt a) = deriv c a"

fun rx_match :: "rx \<Rightarrow> string \<Rightarrow> bool" where
  "rx_match r [] = nullable r"
| "rx_match r (c # s) = rx_match (deriv c r) s"

definition digit :: rx where
  "digit = Cls ''0123456789''"

definition seqs :: "rx list \<Rightarrow> rx" where
  "seqs rs = foldr Seq rs Eps"

text \<open>
  Lines 221-224:
  \<^verbatim>\<open>^\d{4}-(0[1-9]|1[0-2])-(0[1-9]|[12]\d|3[01])T([01]\d|2[0-3]):([0-5]\d):([0-5]\d)(\.\d{1,3})?$\<close>.
  With \<open>re.match\<close> the final \<open>$\<close> also matches before one newline that ends the string.
\<close>

definition iso_8601_pattern :: rx where
  "iso_8601_pattern = seqs
     [digit, digit, digit, digit, Cls ''-'',
      Alt (Seq (Cls ''0'') (Cls ''123456789'')) (Seq (Cls ''1'') (Cls ''012'')), Cls ''-'',
      Alt (Seq (Cls ''0'') (Cls ''123456789''))
        (Alt (Seq (Cls ''12'') digit) (Seq (Cls ''3'') (Cls ''01''))), Cls ''T'',
      Alt (Seq (Cls ''01'') digit) (Seq (Cls ''2'') (Cls ''0123'')), Cls '':'',
      Seq (Cls ''012345'') digit, Cls '':'',
      Seq (Cls ''012345'') digit,
      Opt (seqs [Cls ''.'', digit, Opt digit, Opt digit]),
      Opt (Cls [CHR 0x0A])]"

definition iso_8601_match :: "string \<Rightarrow> bool" where
  "iso_8601_match val = rx_match iso_8601_pattern val"

subsection \<open>\<open>datetime.strptime\<close> and \<open>strftime\<close>\<close>

text \<open>
  \<open>strptime\<close> turns the format into a regular expression with one group per directive,
  takes the first match in the order of backtracking and fails when text remains.
  A parser is the list of its successes in that order.
\<close>

type_synonym 'a parser = "string \<Rightarrow> ('a \<times> string) list"

fun classes :: "char list list \<Rightarrow> string parser" where
  "classes [] s = [([], s)]"
| "classes (cs # css) [] = []"
| "classes (cs # css) (c # s) =
     (if c \<in> set cs then map (\<lambda>(m, rest). (c # m, rest)) (classes css s) else [])"

definition alts :: "char list list list \<Rightarrow> string parser" where
  "alts as s = concat (map (\<lambda>a. classes a s) as)"

definition whitespace :: "char list" where
  "whitespace = [CHR 0x09, CHR 0x0A, CHR 0x0B, CHR 0x0C, CHR 0x0D, CHR 0x1C, CHR 0x1D,
                 CHR 0x1E, CHR 0x1F, CHR 0x20, CHR 0x85, CHR 0xA0]"

text \<open>\<open>\s+\<close>: the longest run first, then the shorter ones.\<close>

fun spaces :: "string parser" where
  "spaces [] = []"
| "spaces (c # s) = (if c \<in> set whitespace then map (\<lambda>(m, rest). (c # m, rest)) (spaces s) @ [([c], s)] else [])"

definition then_p :: "'a parser \<Rightarrow> ('a \<Rightarrow> 'b parser) \<Rightarrow> 'b parser" where
  "then_p p f s = concat (map (\<lambda>(a, rest). f a rest) (p s))"

definition return_p :: "'a \<Rightarrow> 'a parser" where
  "return_p a s = [(a, s)]"

text \<open>\<open>int(text)\<close> of a group: decimal digits, surrounding blanks ignored.\<close>

definition digit_val :: "char \<Rightarrow> nat" where
  "digit_val c = (of_char c :: nat) - 48"

definition int_of :: "string \<Rightarrow> nat" where
  "int_of m = foldl (\<lambda>n c. 10 * n + digit_val c) 0 (filter (\<lambda>c. c \<in> set ''0123456789'') m)"

definition d09 :: "char list" where "d09 = ''0123456789''"
definition d19 :: "char list" where "d19 = ''123456789''"

definition dir_Y :: "string parser" where "dir_Y = alts [[d09, d09, d09, d09]]"
definition dir_m :: "string parser" where "dir_m = alts [[''1'', ''012''], [''0'', d19], [d19]]"
definition dir_d :: "string parser" where
  "dir_d = alts [[''3'', ''01''], [''12'', d09], [''0'', d19], [d19], ['' '', d19]]"
definition dir_H :: "string parser" where "dir_H = alts [[''2'', ''0123''], [''01'', d09], [d09]]"
definition dir_M :: "string parser" where "dir_M = alts [[''012345'', d09], [d09]]"
definition dir_S :: "string parser" where "dir_S = alts [[''6'', ''01''], [''012345'', d09], [d09]]"

record datetime =
  year :: nat
  month :: nat
  day :: nat
  hour :: nat
  minute :: nat
  second :: nat

text \<open>The regular expression of \<open>%Y-%m-%d<sep>%H:%M:%S\<close>, the separator given as a parser.\<close>

definition format_regex :: "string parser \<Rightarrow> datetime parser" where
  "format_regex sep =
     then_p dir_Y (\<lambda>Y. then_p (alts [[''-'']]) (\<lambda>_.
     then_p dir_m (\<lambda>m. then_p (alts [[''-'']]) (\<lambda>_.
     then_p dir_d (\<lambda>d. then_p sep (\<lambda>_.
     then_p dir_H (\<lambda>H. then_p (alts [['':'']]) (\<lambda>_.
     then_p dir_M (\<lambda>M. then_p (alts [['':'']]) (\<lambda>_.
     then_p dir_S (\<lambda>S. return_p
       \<lparr>year = int_of Y, month = int_of m, day = int_of d,
        hour = int_of H, minute = int_of M, second = int_of S\<rparr>)))))))))))"

definition is_leap :: "nat \<Rightarrow> bool" where
  "is_leap y = (y mod 4 = 0 \<and> (y mod 100 \<noteq> 0 \<or> y mod 400 = 0))"

definition days_in_month :: "nat \<Rightarrow> nat \<Rightarrow> nat" where
  "days_in_month y m =
     (if m = 2 then (if is_leap y then 29 else 28)
      else if m \<in> {4, 6, 9, 11} then 30 else 31)"

text \<open>The checks of the \<open>datetime\<close> constructor.\<close>

definition valid_datetime :: "datetime \<Rightarrow> bool" where
  "valid_datetime t =
     (1 \<le> year t \<and> year t \<le> 9999 \<and> 1 \<le> month t \<and> month t \<le> 12 \<and>
      1 \<le> day t \<and> day t \<le> days_in_month (year t) (month t) \<and>
      hour t \<le> 23 \<and> minute t \<le> 59 \<and> second t \<le> 59)"

text \<open>
  \<open>datetime.strptime(date_str, fmt)\<close>; \<open>None\<close> stands for the \<open>ValueError\<close>. The format is
  compiled with \<open>IGNORECASE\<close>, so the literal \<open>T\<close> also matches \<open>t\<close>.
\<close>

definition strptime :: "string parser \<Rightarrow> string \<Rightarrow> datetime option" where
  "strptime sep date_str =
     (case format_regex sep date_str of
        [] \<Rightarrow> None
      | (t, rest) # _ \<Rightarrow> if rest = [] \<and> valid_datetime t then Some t else None)"

definition fmt_space :: "string parser" where
  "fmt_space = spaces"

definition fmt_T :: "string parser" where
  "fmt_T = alts [[''Tt'']]"

definition digit_char :: "nat \<Rightarrow> char" where
  "digit_char n = ''0123456789'' ! (n mod 10)"

definition pad2 :: "nat \<Rightarrow> string" where
  "pad2 n = [digit_char (n div 10), digit_char n]"

text \<open>\<open>%Y\<close> of the C library: the year without padding.\<close>

definition str_year :: "nat \<Rightarrow> string" where
  "str_year y =
     (if y < 10 then [digit_char y]
      else if y < 100 then [digit_char (y div 10), digit_char y]
      else if y < 1000 then [digit_char (y div 100), digit_char (y div 10), digit_char y]
      else [digit_char (y div 1000), digit_char (y div 100), digit_char (y div 10), digit_char y])"

text \<open>\<open>strftime("%Y-%m-%dT%H:%M:%S.000")\<close>.\<close>

definition strftime :: "datetime \<Rightarrow> string" where
  "strftime t =
     str_year (year t) @ ''-'' @ pad2 (month t) @ ''-'' @ pad2 (day t) @ ''T'' @
     pad2 (hour t) @ '':'' @ pad2 (minute t) @ '':'' @ pad2 (second t) @ ''.000''"

text \<open>Lines 226-232.\<close>

definition correct_datetime :: "string \<Rightarrow> string option" where
  "correct_datetime date_str =
     (case strptime fmt_space date_str of
        Some t \<Rightarrow> Some (strftime t)
      | None \<Rightarrow>
          (case strptime fmt_T date_str of
             Some t \<Rightarrow> Some (strftime t)
           | None \<Rightarrow> None))"


subsection \<open>Data frames\<close>

text \<open>
  A cell of a data frame is a string, a float (its 64 bits) or a missing value
  (\<open>None\<close>, \<open>NaN\<close>, \<open>NaT\<close>). A cell of another type, such as a timestamp, is
  represented by the string that \<open>astype(str)\<close> gives for it.
\<close>

type_synonym float64 = "64 word"

definition is_nan :: "float64 \<Rightarrow> bool" where
  "is_nan w = (0x7FF0000000000000 < (w AND 0x7FFFFFFFFFFFFFFF))"

definition is_zero :: "float64 \<Rightarrow> bool" where
  "is_zero w = (w AND 0x7FFFFFFFFFFFFFFF = 0)"

definition nan :: float64 where
  "nan = 0x7FF8000000000000"

datatype cell = Str string | Flt float64 | Null

text \<open>A frame has its column labels and its rows, each row with its index label.\<close>

record frame =
  columns :: "string list"
  rows :: "(nat \<times> cell list) list"

datatype error = KeyError string | ValueError string | DuplicateLabel string

text \<open>What the run takes from the Python library: \<open>float(s)\<close> and \<open>str(x)\<close> of a float.\<close>

record pylib =
  float_of_str :: "string \<Rightarrow> float64 option"
  str_of_float :: "float64 \<Rightarrow> string"

fun isna :: "cell \<Rightarrow> bool" where
  "isna Null = True"
| "isna (Flt w) = is_nan w"
| "isna (Str s) = False"

text \<open>
  \<open>df[name]\<close>: the column of that label, \<open>KeyError\<close> when there is none. A label that two
  columns carry selects a sub-frame, which the run does not expect; the model stops there.
\<close>

definition positions :: "string \<Rightarrow> string list \<Rightarrow> nat list" where
  "positions name cols = filter (\<lambda>i. cols ! i = name) [0..<length cols]"

definition column_index :: "string \<Rightarrow> frame \<Rightarrow> error + nat" where
  "column_index name df =
     (case positions name (columns df) of
        [] \<Rightarrow> Inl (KeyError name)
      | [i] \<Rightarrow> Inr i
      | _ \<Rightarrow> Inl (DuplicateLabel name))"

definition get_column :: "string \<Rightarrow> frame \<Rightarrow> error + cell list" where
  "get_column name df =
     (case column_index name df of
        Inl e \<Rightarrow> Inl e
      | Inr i \<Rightarrow> Inr (map (\<lambda>(k, r). r ! i) (rows df)))"

text \<open>\<open>df[name] = values\<close>, in place: the column is replaced, or added when the label is new.\<close>

definition set_column :: "string \<Rightarrow> cell list \<Rightarrow> frame \<Rightarrow> frame" where
  "set_column name vals df =
     (case positions name (columns df) of
        [] \<Rightarrow> \<lparr>columns = columns df @ [name],
               rows = map (\<lambda>((k, r), v). (k, r @ [v])) (zip (rows df) vals)\<rparr>
      | i # _ \<Rightarrow> df\<lparr>rows := map (\<lambda>((k, r), v). (k, r[i := v])) (zip (rows df) vals)\<rparr>)"

text \<open>\<open>df[mask]\<close>: a new frame of the rows whose mask entry is true.\<close>

definition select_rows :: "bool list \<Rightarrow> frame \<Rightarrow> frame" where
  "select_rows keep df = df\<lparr>rows := map snd (filter fst (zip keep (rows df)))\<rparr>"

text \<open>
  \<open>duplicated()\<close> marks a row whose cells equal those of an earlier one; missing values count
  as equal to each other, and so do the two zeros.
\<close>

fun same_cell :: "cell \<Rightarrow> cell \<Rightarrow> bool" where
  "same_cell (Str s) (Str t) = (s = t)"
| "same_cell (Flt a) (Flt b) = (if is_nan a then is_nan b else a = b \<or> is_zero a \<and> is_zero b)"
| "same_cell (Flt a) Null = is_nan a"
| "same_cell Null (Flt b) = is_nan b"
| "same_cell Null Null = True"
| "same_cell _ _ = False"

definition same_row :: "cell list \<Rightarrow> cell list \<Rightarrow> bool" where
  "same_row r r' = list_all2 same_cell r r'"

fun duplicated_from :: "cell list list \<Rightarrow> cell list list \<Rightarrow> bool list" where
  "duplicated_from seen [] = []"
| "duplicated_from seen (r # rs) = list_ex (same_row r) seen # duplicated_from (r # seen) rs"

definition duplicated :: "frame \<Rightarrow> bool list" where
  "duplicated df = duplicated_from [] (map snd (rows df))"

definition any_true :: "bool list \<Rightarrow> bool" where
  "any_true bs = list_ex (\<lambda>b. b) bs"

definition drop_duplicates :: "frame \<Rightarrow> frame" where
  "drop_duplicates df = select_rows (map Not (duplicated df)) df"

text \<open>\<open>df[name] != s\<close> and \<open>df[name] == 0.0\<close>, element by element.\<close>

definition ne_str :: "string \<Rightarrow> string \<Rightarrow> frame \<Rightarrow> error + bool list" where
  "ne_str name s df =
     (case get_column name df of
        Inl e \<Rightarrow> Inl e
      | Inr col \<Rightarrow> Inr (map (\<lambda>c. c \<noteq> Str s) col))"

fun eq_zero :: "cell \<Rightarrow> bool" where
  "eq_zero (Flt w) = is_zero w"
| "eq_zero _ = False"

text \<open>\<open>astype(float)\<close> of a column: strings go through \<open>float\<close>, a missing value becomes \<open>NaN\<close>.\<close>

fun astype_float :: "pylib \<Rightarrow> cell list \<Rightarrow> error + cell list" where
  "astype_float lib [] = Inr []"
| "astype_float lib (c # cs) =
     (case (case c of
              Str s \<Rightarrow> (case float_of_str lib s of None \<Rightarrow> Inl (ValueError s) | Some w \<Rightarrow> Inr (Flt w))
            | Flt w \<Rightarrow> Inr (Flt w)
            | Null \<Rightarrow> Inr (Flt nan)) of
        Inl e \<Rightarrow> Inl e
      | Inr v \<Rightarrow> (case astype_float lib cs of Inl e \<Rightarrow> Inl e | Inr vs \<Rightarrow> Inr (v # vs)))"

text \<open>\<open>astype(str)\<close> of a cell.\<close>

fun astype_str :: "pylib \<Rightarrow> cell \<Rightarrow> string" where
  "astype_str lib (Str s) = s"
| "astype_str lib (Flt w) = str_of_float lib w"
| "astype_str lib Null = ''None''"

text \<open>\<open>dropna()\<close> and \<open>dropna(subset=[name])\<close>.\<close>

definition dropna :: "frame \<Rightarrow> frame" where
  "dropna df = select_rows (map (\<lambda>(k, r). \<not> list_ex isna r) (rows df)) df"

definition dropna_subset :: "string \<Rightarrow> frame \<Rightarrow> error + frame" where
  "dropna_subset name df =
     (case get_column name df of
        Inl e \<Rightarrow> Inl e
      | Inr col \<Rightarrow> Inr (select_rows (map (\<lambda>c. \<not> isna c) col) df))"

text \<open>\<open>value_counts().to_dict()\<close>: how often each value that is not missing occurs.\<close>

definition value_counts :: "cell list \<Rightarrow> cell \<rightharpoonup> nat" where
  "value_counts col = (\<lambda>v. if v \<in> set col \<and> \<not> isna v then Some (count_list col v) else None)"


subsection \<open>The validation loop of the occurrence timestamps\<close>

text \<open>Lines 234-249: the counters and the list of corrected dates, one value at a time.\<close>

fun date_loop :: "string list \<Rightarrow> nat \<times> nat \<times> string option list \<Rightarrow> nat \<times> nat \<times> string option list" where
  "date_loop [] acc = acc"
| "date_loop (val # vals) (valid_dt, invalid_dt, corrected_dates) =
     (if iso_8601_match val
      then date_loop vals (valid_dt + 1, invalid_dt, corrected_dates @ [Some val])
      else (case correct_datetime val of
              Some fixed \<Rightarrow>
                if fixed \<noteq> []
                then date_loop vals (valid_dt + 1, invalid_dt, corrected_dates @ [Some fixed])
                else date_loop vals (valid_dt, invalid_dt + 1, corrected_dates @ [None])
            | None \<Rightarrow> date_loop vals (valid_dt, invalid_dt + 1, corrected_dates @ [None])))"

subsection \<open>The steps of the cleaning run, on one frame\<close>

text \<open>Line 185.\<close>

definition rename_columns :: "frame \<Rightarrow> error + frame" where
  "rename_columns df = Inr (df\<lparr>columns := map normalize_column (columns df)\<rparr>)"

text \<open>\<open>df[df[name] != s]\<close>, lines 203, 204 and 217.\<close>

definition where_ne :: "string \<Rightarrow> string \<Rightarrow> frame \<Rightarrow> error + frame" where
  "where_ne name s df =
     (case ne_str name s df of
        Inl e \<Rightarrow> Inl e
      | Inr keep \<Rightarrow> Inr (select_rows keep df))"

text \<open>Lines 206 and 253.\<close>

definition category_counts :: "frame \<Rightarrow> error + (cell \<rightharpoonup> nat)" where
  "category_counts df =
     (case get_column ''crime_against_category'' df of
        Inl e \<Rightarrow> Inl e
      | Inr col \<Rightarrow> Inr (value_counts col))"

text \<open>Lines 209-211.\<close>

definition where_latitude :: "frame \<Rightarrow> error + frame" where
  "where_latitude df =
     (case ne_str ''latitude'' ''REDACTED'' df of
        Inl e \<Rightarrow> Inl e
      | Inr m1 \<Rightarrow>
          (case ne_str ''latitude'' ''-1.0'' df of
             Inl e \<Rightarrow> Inl e
           | Inr m2 \<Rightarrow> Inr (select_rows (map (\<lambda>(a, b). a \<and> b) (zip m1 m2)) df)))"

text \<open>Lines 212 and 213: \<open>df[name] = df[name].astype(float)\<close>.\<close>

definition to_float :: "pylib \<Rightarrow> string \<Rightarrow> frame \<Rightarrow> error + frame" where
  "to_float lib name df =
     (case get_column name df of
        Inl e \<Rightarrow> Inl e
      | Inr col \<Rightarrow>
          (case astype_float lib col of
             Inl e \<Rightarrow> Inl e
           | Inr vals \<Rightarrow> Inr (set_column name vals df)))"

text \<open>Line 218.\<close>

definition where_coordinates :: "frame \<Rightarrow> error + frame" where
  "where_coordinates df =
     (case get_column ''longitude'' df of
        Inl e \<Rightarrow> Inl e
      | Inr lon \<Rightarrow>
          (case get_column ''latitude'' df of
             Inl e \<Rightarrow> Inl e
           | Inr lat \<Rightarrow>
               Inr (select_rows (map (\<lambda>(x, y). \<not> (eq_zero x \<and> eq_zero y)) (zip lon lat)) df)))"

text \<open>Lines 237-249, and the assignment of line 250.\<close>

definition offense_dates :: "pylib \<Rightarrow> frame \<Rightarrow> error + nat \<times> nat \<times> string option list" where
  "offense_dates lib df =
     (case get_column ''offense_date'' df of
        Inl e \<Rightarrow> Inl e
      | Inr col \<Rightarrow> Inr (date_loop (map (astype_str lib) col) (0, 0, [])))"

definition assign_dates :: "string option list \<Rightarrow> frame \<Rightarrow> error + frame" where
  "assign_dates corrected_dates df =
     Inr (set_column ''offense_date'' (map (case_option Null Str) corrected_dates) df)"

subsection \<open>The cleaning run over a heap of frames\<close>

text \<open>
  Frames are objects: a name of the run holds the address of a frame in the heap. \<open>copy\<close>,
  a selection of rows, \<open>drop_duplicates\<close> and \<open>dropna\<close> make a new frame; an assignment to
  \<open>columns\<close> or to a column changes the frame in place; anything else only reads.
\<close>

type_synonym heap = "frame list"

definition new_from :: "(frame \<Rightarrow> error + frame) \<Rightarrow> nat \<Rightarrow> heap \<Rightarrow> (error + nat) \<times> heap" where
  "new_from f a h = (case f (h ! a) of Inl e \<Rightarrow> (Inl e, h) | Inr df \<Rightarrow> (Inr (length h), h @ [df]))"

definition in_place :: "(frame \<Rightarrow> error + frame) \<Rightarrow> nat \<Rightarrow> heap \<Rightarrow> (error + nat) \<times> heap" where
  "in_place f a h = (case f (h ! a) of Inl e \<Rightarrow> (Inl e, h) | Inr df \<Rightarrow> (Inr a, h[a := df]))"

definition read_from :: "(frame \<Rightarrow> error + 'a) \<Rightarrow> nat \<Rightarrow> heap \<Rightarrow> (error + 'a) \<times> heap" where
  "read_from g a h = (g (h ! a), h)"

definition and_then :: "(error + 'a) \<times> heap \<Rightarrow> ('a \<Rightarrow> heap \<Rightarrow> (error + 'b) \<times> heap) \<Rightarrow> (error + 'b) \<times> heap" where
  "and_then m f = (case m of (Inl e, h) \<Rightarrow> (Inl e, h) | (Inr x, h) \<Rightarrow> f x h)"

record metadata =
  rows_after_cleaning :: nat
  duplicates_removed :: bool
  valid_offense_datetime_records :: nat
  invalid_offense_datetime_records :: nat
  distribution_before :: "cell \<rightharpoonup> nat"
  distribution_after :: "cell \<rightharpoonup> nat"

text \<open>Lines 193-195, and again lines 198-200.\<close>

definition check_duplicates :: "nat \<Rightarrow> heap \<Rightarrow> (error + bool \<times> nat) \<times> heap" where
  "check_duplicates crime_df h =
     and_then (read_from (\<lambda>df. Inr (any_true (duplicated df))) crime_df h) (\<lambda>had_duplicates h.
       if had_duplicates
       then and_then (new_from (\<lambda>df. Inr (drop_duplicates df)) crime_df h) (\<lambda>crime_df h.
              (Inr (had_duplicates, crime_df), h))
       else (Inr (had_duplicates, crime_df), h))"

text \<open>Lines 234-251.\<close>

definition validate_offense_date :: "pylib \<Rightarrow> nat \<Rightarrow> heap \<Rightarrow> (error + nat \<times> nat \<times> nat) \<times> heap" where
  "validate_offense_date lib crime_df h =
     (if ''offense_date'' \<in> set (columns (h ! crime_df))
      then and_then (read_from (offense_dates lib) crime_df h)
             (\<lambda>(valid_dt, invalid_dt, corrected_dates) h.
           and_then (in_place (assign_dates corrected_dates) crime_df h) (\<lambda>crime_df h.
           and_then (new_from (dropna_subset ''offense_date'') crime_df h) (\<lambda>crime_df h.
             (Inr (crime_df, valid_dt, invalid_dt), h))))
      else (Inr (crime_df, 0, 0), h))"

text \<open>
  The asset, lines 178-266. It returns the address of the cleaned frame and the metadata
  (without the rendering of the first ten rows).
\<close>

definition clean_and_analyze_crime_data :: "pylib \<Rightarrow> nat \<Rightarrow> heap \<Rightarrow> (error + nat \<times> metadata) \<times> heap" where
  "clean_and_analyze_crime_data lib load_and_process_crime_data_from_mongodb h =
     and_then (new_from Inr load_and_process_crime_data_from_mongodb h) (\<lambda>crime_df h.
     and_then (in_place rename_columns crime_df h) (\<lambda>crime_df h.
     and_then (check_duplicates crime_df h) (\<lambda>(had_duplicates, crime_df) h.
     and_then (check_duplicates crime_df h) (\<lambda>(had_duplicates, crime_df) h.
     and_then (new_from (where_ne ''crime_against_category'' ''-'') crime_df h) (\<lambda>crime_df h.
     and_then (new_from (where_ne ''precinct'' ''-'') crime_df h) (\<lambda>crime_df h.
     and_then (read_from category_counts crime_df h) (\<lambda>crime_category_counts_before h.
     and_then (new_from where_latitude crime_df h) (\<lambda>crime_df h.
     and_then (in_place (to_float lib ''latitude'') crime_df h) (\<lambda>crime_df h.
     and_then (in_place (to_float lib ''longitude'') crime_df h) (\<lambda>crime_df h.
     and_then (new_from (\<lambda>df. Inr (dropna df)) crime_df h) (\<lambda>crime_df h.
     and_then (new_from (where_ne ''crime_against_category'' ''NOT_A_CRIME'') crime_df h) (\<lambda>crime_df h.
     and_then (new_from where_coordinates crime_df h) (\<lambda>crime_df h.
     and_then (validate_offense_date lib crime_df h) (\<lambda>(crime_df, valid_dt, invalid_dt) h.
     and_then (read_from category_counts crime_df h) (\<lambda>crime_category_counts_after h.
       (Inr (crime_df,
             \<lparr>rows_after_cleaning = length (rows (h ! crime_df)),
              duplicates_removed = had_duplicates,
              valid_offense_datetime_records = valid_dt,
              invalid_offense_datetime_records = invalid_dt,
              distribution_before = crime_category_counts_before,
              distribution_after = crime_category_counts_after\<rparr>), h))))))))))))))))"

subsection \<open>The run as a function of the input frame\<close>

text \<open>
  The same steps without the heap: what the run computes from the frame it is given. The
  heap run is shown below to return the frame and the metadata of this function.
\<close>

definition then_e :: "error + 'a \<Rightarrow> ('a \<Rightarrow> error + 'b) \<Rightarrow> error + 'b" where
  "then_e m f = (case m of Inl e \<Rightarrow> Inl e | Inr x \<Rightarrow> f x)"

definition deduplicated :: "frame \<Rightarrow> bool \<times> frame" where
  "deduplicated df =
     (let had_duplicates = any_true (duplicated df)
      in (had_duplicates, if had_duplicates then drop_duplicates df else df))"

definition validated :: "pylib \<Rightarrow> frame \<Rightarrow> error + frame \<times> nat \<times> nat" where
  "validated lib df =
     (if ''offense_date'' \<in> set (columns df)
      then then_e (offense_dates lib df) (\<lambda>(valid_dt, invalid_dt, corrected_dates).
           then_e (assign_dates corrected_dates df) (\<lambda>df.
           then_e (dropna_subset ''offense_date'' df) (\<lambda>df.
             Inr (df, valid_dt, invalid_dt))))
      else Inr (df, 0, 0))"

definition clean_frame :: "pylib \<Rightarrow> frame \<Rightarrow> error + frame \<times> metadata" where
  "clean_frame lib df =
     then_e (Inr df) (\<lambda>df.
     then_e (rename_columns df) (\<lambda>df.
     (case deduplicated df of (had_duplicates, df) \<Rightarrow>
     (case deduplicated df of (had_duplicates, df) \<Rightarrow>
     then_e (where_ne ''crime_against_category'' ''-'' df) (\<lambda>df.
     then_e (where_ne ''precinct'' ''-'' df) (\<lambda>df.
     then_e (category_counts df) (\<lambda>crime_category_counts_before.
     then_e (where_latitude df) (\<lambda>df.
     then_e (to_float lib ''latitude'' df) (\<lambda>df.
     then_e (to_float lib ''longitude'' df) (\<lambda>df.
     then_e (Inr (dropna df)) (\<lambda>df.
     then_e (where_ne ''crime_against_category'' ''NOT_A_CRIME'' df) (\<lambda>df.
     then_e (where_coordinates df) (\<lambda>df.
     then_e (validated lib df) (\<lambda>(df, valid_dt, invalid_dt).
     then_e (category_counts df) (\<lambda>crime_category_counts_after.
       Inr (df,
            \<lparr>rows_after_cleaning = length (rows df),
             duplicates_removed = had_duplicates,
             valid_offense_datetime_records = valid_dt,
             invalid_offense_datetime_records = invalid_dt,
             distribution_before = crime_category_counts_before,
             distribution_after = crime_category_counts_after\<rparr>))))))))))))))))"

text \<open>What a caller sees of a run: the error, or the frame at the returned address.\<close>

definition view :: "(error + nat \<times> 'm) \<times> heap \<Rightarrow> error + frame \<times> 'm" where
  "view res = (case res of (Inl e, h) \<Rightarrow> Inl e | (Inr (a, m), h) \<Rightarrow> Inr (h ! a, m))"

definition simulates :: "(nat \<Rightarrow> heap \<Rightarrow> (error + nat \<times> 'm) \<times> heap) \<Rightarrow> (frame \<Rightarrow> error + frame \<times> 'm) \<Rightarrow> bool" where
  "simulates K k = (\<forall>a h. a < length h \<longrightarrow> view (K a h) = k (h ! a))"

definition keeps :: "(nat \<Rightarrow> heap \<Rightarrow> (error + 'r) \<times> heap) \<Rightarrow> bool" where
  "keeps K = (\<forall>n a h. n \<le> a \<and> a < length h \<longrightarrow> take n (snd (K a h)) = take n h)"

subsection \<open>Notions for the statements\<close>

text \<open>A data frame is rectangular: every row has one cell for each column.\<close>

definition rectangular :: "frame \<Rightarrow> bool" where
  "rectangular df = (\<forall>(k, r) \<in> set (rows df). length r = length (columns df))"


subsection \<open>A concrete batch\<close>

text \<open>
  Five raw rows: a valid one, an exact copy of it, one with a redacted latitude, one at the
  coordinates (0.0, 0.0), and one whose occurrence timestamp is not a date.
\<close>

definition ex_float :: "string \<Rightarrow> float64 option" where
  "ex_float s =
     (if s = ''47.5'' then Some 0x4047C00000000000
      else if s = ''-122.25'' then Some 0xC05E900000000000
      else if s = ''0.0'' then Some 0
      else None)"

definition ex_lib :: pylib where
  "ex_lib = \<lparr>float_of_str = ex_float, str_of_float = (\<lambda>w. ''nan'')\<rparr>"

definition ex_columns :: "string list" where
  "ex_columns = [''report_number'', ''offense_date'', ''nibrs_crime_against_category'',
                 ''precinct'', ''latitude'', ''longitude'']"

definition ex_row :: "cell list" where
  "ex_row = [Str ''2025-000001'', Str ''2025-03-01 10:15:30'', Str ''PROPERTY'', Str ''North'',
             Str ''47.5'', Str ''-122.25'']"

definition ex_batch :: frame where
  "ex_batch = \<lparr>columns = ex_columns,
     rows = [(0, ex_row), (1, ex_row),
             (2, [Str ''2025-000002'', Str ''2025-03-02T08:00:00.000'', Str ''PERSON'', Str ''West'',
                  Str ''REDACTED'', Str ''REDACTED'']),
             (3, [Str ''2025-000003'', Str ''2025-03-03T09:30:00.000'', Str ''PERSON'', Str ''East'',
                  Str ''0.0'', Str ''0.0'']),
             (4, [Str ''2025-000004'', Str ''not-a-date'', Str ''SOCIETY'', Str ''South'',
                  Str ''47.5'', Str ''-122.25''])]\<rparr>"

definition ex_cleaned :: frame where
  "ex_cleaned = \<lparr>columns = [''report_number'', ''offense_date'', ''crime_against_category'',
                             ''precinct'', ''latitude'', ''longitude''],
     rows = [(0, [Str ''2025-000001'', Str ''2025-03-01T10:15:30.000'', Str ''PROPERTY'', Str ''North'',
                  Flt 0x4047C00000000000, Flt 0xC05E900000000000])]\<rparr>"

text \<open>The counts and the flag of the metadata.\<close>

definition report :: "error + frame \<times> metadata \<Rightarrow> error + frame \<times> nat \<times> bool \<times> nat \<times> nat" where
  "report res =
     (case res of
        Inl e \<Rightarrow> Inl e
      | Inr (df, m) \<Rightarrow>
          Inr (df, rows_after_cleaning m, duplicates_removed m,
               valid_offense_datetime_records m, invalid_offense_datetime_records m))"

text \<open>A frame of four occurrence timestamps, and what the validation makes of it.\<close>

definition ex_dates :: frame where
  "ex_dates = \<lparr>columns = [''offense_date'', ''precinct''],
     rows = [(0, [Str ''2025-03-01 10:15:30'', Str ''North'']),
             (1, [Str ''2025-03-01T10:15:30.123'', Str ''West'']),
             (2, [Str ''not-a-date'', Str ''East'']),
             (3, [Str ''2025-3-1T9:05:07'', Str ''South''])]\<rparr>"


section \<open>The ingestion run\<close>

subsection \<open>Dates, requests and the world of a run\<close>

text \<open>
  A Python \<open>date\<close> is represented by its proleptic Gregorian ordinal (\<open>date.toordinal()\<close>),
  so that \<open>+ timedelta(days=1)\<close> adds one and dates compare as numbers; the last date is
  9999-12-31, and a step beyond it raises \<open>OverflowError\<close>. The first-run date 2025-01-01 has
  the ordinal 739252. A timestamp is the number of milliseconds since the start of the day
  of ordinal 0, so that timestamps compare as numbers too.
\<close>

type_synonym date = nat

type_synonym timestamp = nat

definition at_time :: "date \<Rightarrow> nat \<Rightarrow> nat \<Rightarrow> nat \<Rightarrow> timestamp" where
  "at_time d h m s = d * 86400000 + ((h * 60 + m) * 60 + s) * 1000"

definition date_of :: "timestamp \<Rightarrow> date" where
  "date_of t = t div 86400000"

definition max_date :: date where
  "max_date = 3652059"

definition first_run_date :: date where
  "first_run_date = 739252"

datatype fault = RequestError string | ConversionError string | OverflowError

definition add_day :: "date \<Rightarrow> fault + date" where
  "add_day d = (if d + 1 \<le> max_date then Inr (d + 1) else Inl OverflowError)"

text \<open>
  The parameters of a page request (lines 83-91). The two literals of the \<open>$where\<close> clause,
  \<open>{current_date}T00:00:00\<close> and \<open>{current_date}T23:59:59\<close>, are kept as the timestamps they
  denote; \<open>$order\<close> is always \<open>offense_date ASC\<close>.
\<close>

record request =
  where_from :: timestamp
  where_to :: timestamp
  limit :: nat
  offset :: nat

text \<open>
  What a run takes from outside: the current UTC date; \<open>pd.to_datetime(s).date()\<close>, which
  may raise; the answer to a page request, \<open>Inl\<close> when \<open>requests.get\<close>, \<open>raise_for_status\<close> or
  \<open>json\<close> raises; and the order in which the store executes the operations of the bulk
  write that follows the \<open>n\<close>-th request.
\<close>

record env =
  today :: date
  to_date :: "string \<Rightarrow> fault + date"
  respond :: "request \<Rightarrow> fault + document list"
  order_of :: "nat \<Rightarrow> (string \<times> document) list \<Rightarrow> (string \<times> document) list"

text \<open>The state a run changes: the collection, and the requests sent so far.\<close>

record world =
  sink :: "document list"
  log :: "request list"

datatype outcome =
  NoNewData date date
| Completed date nat date

subsection \<open>The checkpoint\<close>

text \<open>
  Lines 48-52: \<open>find_one\<close> with the filter \<open>offense_date $exists\<close>, sorted by \<open>offense_date\<close>
  descending: the greatest stored value of the field, if a document has one.
\<close>

definition offense_dates_of :: "document list \<Rightarrow> string list" where
  "offense_dates_of ds = concat (map (\<lambda>d. case d ''offense_date'' of None \<Rightarrow> [] | Some s \<Rightarrow> [s]) ds)"

definition latest_offense_date :: "document list \<Rightarrow> string option" where
  "latest_offense_date ds =
     (case offense_dates_of ds of [] \<Rightarrow> None | s # ss \<Rightarrow> Some (fold max ss s))"

text \<open>Lines 54-58.\<close>

definition start_date :: "env \<Rightarrow> document list \<Rightarrow> fault + date" where
  "start_date e ds =
     (case latest_offense_date ds of
        Some s \<Rightarrow> (case to_date e s of Inl f \<Rightarrow> Inl f | Inr d \<Rightarrow> add_day d)
      | None \<Rightarrow> Inr first_run_date)"

subsection \<open>The page loop and the day loop\<close>

definition page_request :: "date \<Rightarrow> nat \<Rightarrow> request" where
  "page_request current_date off =
     \<lparr>where_from = at_time current_date 0 0 0, where_to = at_time current_date 23 59 59,
      limit = 1000, offset = off\<rparr>"

text \<open>
  Lines 82-114, without the pause of line 114. The loop ends when a page is empty or a
  request fails; it does not return when the remote never sends an empty page.
\<close>

partial_function (option) page_loop ::
  "env \<Rightarrow> date \<Rightarrow> nat \<Rightarrow> nat \<Rightarrow> world \<Rightarrow> ((fault + nat) \<times> world) option" where
  "page_loop e current_date off inserted_day w =
     (let w1 = w\<lparr>log := log w @ [page_request current_date off]\<rparr> in
      case respond e (page_request current_date off) of
        Inl f \<Rightarrow> Some (Inl f, w1)
      | Inr batch \<Rightarrow>
          if batch = [] then Some (Inr inserted_day, w1)
          else (case upsert_batch (order_of e (length (log w))) batch (sink w1) of
                  (ds, n) \<Rightarrow> page_loop e current_date (off + 1000) (inserted_day + n) (w1\<lparr>sink := ds\<rparr>)))"

text \<open>Lines 74-117.\<close>

partial_function (option) day_loop ::
  "env \<Rightarrow> date \<Rightarrow> nat \<Rightarrow> world \<Rightarrow> ((fault + nat) \<times> world) option" where
  "day_loop e current_date inserted_total w =
     (if current_date \<le> today e
      then Option.bind (page_loop e current_date 0 0 w) (\<lambda>res.
             case res of
               (Inl f, w1) \<Rightarrow> Some (Inl f, w1)
             | (Inr inserted_day, w1) \<Rightarrow>
                 (case add_day current_date of
                    Inl f \<Rightarrow> Some (Inl f, w1)
                  | Inr next_date \<Rightarrow> day_loop e next_date (inserted_total + inserted_day) w1))
      else Some (Inr inserted_total, w))"

text \<open>
  The asset, lines 33-130: the outcome is \<open>NoNewData today last\<close> for the metadata of lines
  63-69 and \<open>Completed today inserted start\<close> for those of lines 120-130.
\<close>

definition fetch_crime_data :: "env \<Rightarrow> world \<Rightarrow> ((fault + outcome) \<times> world) option" where
  "fetch_crime_data e w =
     (case start_date e (sink w) of
        Inl f \<Rightarrow> Some (Inl f, w)
      | Inr start \<Rightarrow>
          if start > today e then Some (Inr (NoNewData (today e) (start - 1)), w)
          else Option.bind (day_loop e start 0 w) (\<lambda>res.
                 case res of
                   (Inl f, w1) \<Rightarrow> Some (Inl f, w1)
                 | (Inr inserted_total, w1) \<Rightarrow>
                     Some (Inr (Completed (today e) inserted_total start), w1)))"


subsection \<open>The remote data set\<close>

text \<open>
  The remote service is not part of the repository. Section 6 of the specification
  describes it: it is queried with a window filter (occurrence timestamp \<open>>=\<close> start and
  \<open><=\<close> end), a page limit and offset and an ascending sort by the occurrence timestamp,
  and answers with a sequence of records. A data set is a list of records with their
  occurrence timestamps.
\<close>

definition soda :: "(timestamp \<times> document) list \<Rightarrow> request \<Rightarrow> fault + document list" where
  "soda dataset req =
     Inr (map snd (take (limit req) (drop (offset req)
            (sort_key fst (filter (\<lambda>(t, r). where_from req \<le> t \<and> t \<le> where_to req) dataset)))))"

subsection \<open>Notions for the statements about a run\<close>


text \<open>A request that fails is the last one, and its error is the result.\<close>

definition fails_last :: "env \<Rightarrow> request list \<Rightarrow> (fault + 'a) \<Rightarrow> bool" where
  "fails_last e reqs res =
     (\<forall>i < length reqs. \<forall>f. respond e (reqs ! i) = Inl f \<longrightarrow> i + 1 = length reqs \<and> res = Inl f)"

subsection \<open>Concrete runs\<close>

text \<open>
  A sink whose latest occurrence date is 2025-01-01, on that day; a remote that answers the
  first page and fails on the second; and a data set with one record in the last second of
  2025-01-01.
\<close>

definition ex_dated :: document where
  "ex_dated = [''report_number'' \<mapsto> ''2025-000007'', ''offense_date'' \<mapsto> ''2025-01-01T10:00:00.000'']"

definition ex_older :: document where
  "ex_older = [''report_number'' \<mapsto> ''2024-000003'', ''offense_date'' \<mapsto> ''2024-12-31T23:00:00.000'']"

definition ex_to_date :: "string \<Rightarrow> fault + date" where
  "ex_to_date s =
     (if s = ''2025-01-01T10:00:00.000'' then Inr 739252
      else if s = ''2024-12-31T23:00:00.000'' then Inr 739251
      else if s = ''2025-01-01T23:59:59.500'' then Inr 739252
      else Inl (ConversionError s))"

definition ex_env :: env where
  "ex_env = \<lparr>today = 739252, to_date = ex_to_date, respond = (\<lambda>req. Inr []),
             order_of = (\<lambda>n. in_reverse_order)\<rparr>"

definition ex_world :: world where
  "ex_world = \<lparr>sink = [ex_other, ex_older, ex_dated], log = []\<rparr>"



definition ex_world_fail :: world where
  "ex_world_fail = \<lparr>sink = ex_sink, log = []\<rparr>"


definition ex_late :: document where
  "ex_late = [''report_number'' \<mapsto> ''2025-000100'', ''offense_date'' \<mapsto> ''2025-01-01T23:59:59.500'']"

definition ex_late_time :: timestamp where
  "ex_late_time = at_time 739252 23 59 59 + 500"

definition ex_env_late :: env where
  "ex_env_late = \<lparr>today = 739252, to_date = ex_to_date, respond = soda [(ex_late_time, ex_late)],
                  order_of = (\<lambda>n. in_list_order)\<rparr>"

definition ex_world_empty :: world where
  "ex_world_empty = \<lparr>sink = [], log = []\<rparr>"

section \<open>Properties of the upsert sink\<close>

lemma new_doc_eq: "r ''report_number'' = Some v \<Longrightarrow> [''report_number'' \<mapsto> v] ++ r = r"
  by (rule ext) (auto simp: map_add_def split: option.splits)

lemma update_one_absent:
  "\<forall>d\<in>set ds. d ''report_number'' \<noteq> Some v \<Longrightarrow>
   update_one v r ds = (ds @ [[''report_number'' \<mapsto> v] ++ r], 1)"
  by (induction ds) auto

lemma update_one_present:
  "\<forall>d\<in>set pre. d ''report_number'' \<noteq> Some v \<Longrightarrow> d ''report_number'' = Some v \<Longrightarrow>
   update_one v r (pre @ d # post) = (pre @ (d ++ r) # post, 0)"
  by (induction pre) auto

lemma lookup_update_one:
  assumes "r ''report_number'' = Some v"
  shows "lookup_doc w (fst (update_one v r ds)) =
         (if w = v then Some (base_doc v ds ++ r) else lookup_doc w ds)"
  using assms
  by (induction ds) (auto simp: lookup_doc_def base_doc_def map_add_def split: prod.splits option.splits)

lemma merge_for_add: "merge_for w ops (d ++ m) = d ++ merge_for w ops m"
  by (induction ops arbitrary: m) (auto simp del: map_add_assoc simp: map_add_assoc[symmetric])

lemma merge_for_append: "merge_for w (a @ b) d = merge_for w b (merge_for w a d)"
  by (induction a arbitrary: d) auto

lemma merge_for_notin: "w \<notin> fst ` set ops \<Longrightarrow> merge_for w ops d = d"
  by (induction ops arbitrary: d) auto

lemma map_add_self: "m ++ m = (m :: document)"
  by (rule ext) (auto simp: map_add_def split: option.splits)

lemma merge_for_idem: "merge_for w ops (merge_for w ops d) = merge_for w ops d"
proof -
  have a: "merge_for w ops d = d ++ merge_for w ops Map.empty" for d
    using merge_for_add[of w ops d Map.empty] by simp
  have "merge_for w ops (merge_for w ops d) = (d ++ merge_for w ops Map.empty) ++ merge_for w ops Map.empty"
    using a[of "merge_for w ops d"] a[of d] by simp
  also have "\<dots> = d ++ (merge_for w ops Map.empty ++ merge_for w ops Map.empty)"
    by simp
  also have "\<dots> = d ++ merge_for w ops Map.empty"
    by (simp only: map_add_self)
  finally show ?thesis using a[of d] by simp
qed


lemma execute_append:
  "execute (a @ b) ds =
     (case execute a ds of (ds1, n) \<Rightarrow> case execute b ds1 of (ds2, m) \<Rightarrow> (ds2, n + m))"
  by (induction a arbitrary: ds) (auto split: prod.splits)

lemma base_doc_update_one:
  "r ''report_number'' = Some v \<Longrightarrow>
   base_doc w (fst (update_one v r ds)) = (if w = v then base_doc v ds ++ r else base_doc w ds)"
  by (simp add: base_doc_def[of w] lookup_update_one)

lemma lookup_execute:
  "wf_ops ops \<Longrightarrow>
   lookup_doc w (fst (execute ops S)) =
     (if w \<in> fst ` set ops then Some (merge_for w ops (base_doc w S)) else lookup_doc w S)"
proof (induction ops arbitrary: S)
  case Nil
  then show ?case by simp
next
  case (Cons op ops)
  obtain v r where op: "op = (v, r)" by (cases op)
  from Cons.prems op have r: "r ''report_number'' = Some v" and wf: "wf_ops ops"
    by (auto simp: wf_ops_def)
  have "fst (execute (op # ops) S) = fst (execute ops (fst (update_one v r S)))"
    by (simp add: op split: prod.splits)
  then show ?case
    using Cons.IH[OF wf, of "fst (update_one v r S)"] r
    by (auto simp: op base_doc_update_one lookup_update_one merge_for_notin)
qed

lemma upd_firsts_seen:
  "v \<in> seen \<Longrightarrow> upd_firsts (\<lambda>w d. if w = v then d ++ r else d) seen ds = ds"
  by (induction ds arbitrary: seen) (auto split: option.splits)

lemma update_one_upd_firsts:
  "v \<notin> seen \<Longrightarrow> lookup_doc v ds \<noteq> None \<Longrightarrow>
   update_one v r ds = (upd_firsts (\<lambda>w d. if w = v then d ++ r else d) seen ds, 0)"
proof (induction ds arbitrary: seen)
  case Nil
  then show ?case by (simp add: lookup_doc_def)
next
  case (Cons d ds)
  show ?case
  proof (cases "d ''report_number'' = Some v")
    case True
    then show ?thesis using Cons.prems by (simp add: upd_firsts_seen)
  next
    case False
    with Cons.prems have l: "lookup_doc v ds \<noteq> None" by (simp add: lookup_doc_def)
    show ?thesis
    proof (cases "d ''report_number''")
      case None
      then show ?thesis using Cons.IH[OF Cons.prems(1) l] by simp
    next
      case (Some u)
      with False have "u \<noteq> v" by simp
      then have "v \<notin> insert u seen" using Cons.prems(1) by simp
      from Cons.IH[OF this l] Cons.IH[OF Cons.prems(1) l] Some \<open>u \<noteq> v\<close>
      show ?thesis by simp
    qed
  qed
qed

lemma upd_firsts_fuse:
  "(\<And>w d. d ''report_number'' = Some w \<Longrightarrow> g1 w d ''report_number'' = Some w) \<Longrightarrow>
   upd_firsts g2 seen (upd_firsts g1 seen ds) = upd_firsts (\<lambda>w d. g2 w (g1 w d)) seen ds"
  by (induction ds arbitrary: seen) (auto split: option.splits)

lemma upd_firsts_fixed:
  "(\<And>v d. v \<notin> seen \<Longrightarrow> lookup_doc v ds = Some d \<Longrightarrow> g v d = d) \<Longrightarrow>
   upd_firsts g seen ds = ds"
proof (induction ds arbitrary: seen)
  case Nil
  then show ?case by simp
next
  case (Cons d ds)
  show ?case
  proof (cases "d ''report_number''")
    case None
    have "upd_firsts g seen ds = ds"
      by (rule Cons.IH) (use Cons.prems None in \<open>auto simp: lookup_doc_def\<close>)
    then show ?thesis using None by simp
  next
    case (Some u)
    show ?thesis
    proof (cases "u \<in> seen")
      case True
      have "upd_firsts g seen ds = ds"
      proof (rule Cons.IH)
        fix v e assume "v \<notin> seen" "lookup_doc v ds = Some e"
        moreover from this True have "u \<noteq> v" by auto
        ultimately show "g v e = e"
          using Cons.prems[of v e] Some by (simp add: lookup_doc_def)
      qed
      then show ?thesis using Some True by simp
    next
      case False
      have "g u d = d" using Cons.prems[of u d] False Some by (simp add: lookup_doc_def)
      moreover have "upd_firsts g (insert u seen) ds = ds"
      proof (rule Cons.IH)
        fix v e assume "v \<notin> insert u seen" "lookup_doc v ds = Some e"
        with Some show "g v e = e"
          using Cons.prems[of v e] by (auto simp: lookup_doc_def)
      qed
      ultimately show ?thesis using Some False by simp
    qed
  qed
qed

lemma execute_present:
  "wf_ops ops \<Longrightarrow> \<forall>v \<in> fst ` set ops. lookup_doc v T \<noteq> None \<Longrightarrow>
   execute ops T = (upd_firsts (\<lambda>w. merge_for w ops) {} T, 0)"
proof (induction ops arbitrary: T)
  case Nil
  have "upd_firsts (\<lambda>w d. d) {} T = T" by (rule upd_firsts_fixed) simp
  then show ?case by simp
next
  case (Cons op ops)
  obtain v r where op: "op = (v, r)" by (cases op)
  from Cons.prems op have r: "r ''report_number'' = Some v" and wf: "wf_ops ops"
    by (auto simp: wf_ops_def)
  let ?g = "\<lambda>w d. if w = v then d ++ r else d"
  have u: "update_one v r T = (upd_firsts ?g {} T, 0)"
    by (rule update_one_upd_firsts) (use Cons.prems op in auto)
  have pres: "\<forall>w \<in> fst ` set ops. lookup_doc w (upd_firsts ?g {} T) \<noteq> None"
  proof
    fix w assume "w \<in> fst ` set ops"
    then have "lookup_doc w T \<noteq> None" using Cons.prems(2) by auto
    then show "lookup_doc w (upd_firsts ?g {} T) \<noteq> None"
      using lookup_update_one[where r=r and v=v and w=w and ds=T] r by (simp add: u)
  qed
  have key: "\<And>w d. d ''report_number'' = Some w \<Longrightarrow> ?g w d ''report_number'' = Some w"
    using r by (auto simp: map_add_def)
  have "execute ops (upd_firsts ?g {} T) =
        (upd_firsts (\<lambda>w. merge_for w ops) {} (upd_firsts ?g {} T), 0)"
    by (rule Cons.IH[OF wf pres])
  also have "upd_firsts (\<lambda>w. merge_for w ops) {} (upd_firsts ?g {} T) =
             upd_firsts (\<lambda>w d. merge_for w ops (?g w d)) {} T"
    by (rule upd_firsts_fuse) (rule key)
  also have "(\<lambda>w d. merge_for w ops (?g w d)) = (\<lambda>w. merge_for w (op # ops))"
    by (auto simp: op fun_eq_iff)
  finally show ?case by (simp add: op u)
qed

lemma execute_again:
  assumes "wf_ops (a @ b)"
  shows "execute b (fst (execute (a @ b) S)) = (fst (execute (a @ b) S), 0)"
proof -
  let ?S' = "fst (execute (a @ b) S)"
  from assms have wfb: "wf_ops b" by (auto simp: wf_ops_def)
  have look: "lookup_doc w ?S' =
     (if w \<in> fst ` set (a @ b) then Some (merge_for w (a @ b) (base_doc w S)) else lookup_doc w S)" for w
    by (rule lookup_execute[OF assms])
  have pres: "\<forall>v \<in> fst ` set b. lookup_doc v ?S' \<noteq> None"
    by (auto simp: look)
  have "upd_firsts (\<lambda>w. merge_for w b) {} ?S' = ?S'"
  proof (rule upd_firsts_fixed)
    fix v d assume d: "lookup_doc v ?S' = Some d"
    show "merge_for v b d = d"
    proof (cases "v \<in> fst ` set (a @ b)")
      case True
      with d look[of v] have "d = merge_for v b (merge_for v a (base_doc v S))"
        by (simp add: merge_for_append)
      then show ?thesis by (simp add: merge_for_idem)
    next
      case False
      then have "v \<notin> fst ` set b" by auto
      then show ?thesis by (rule merge_for_notin)
    qed
  qed
  then show ?thesis using execute_present[OF wfb pres] by simp
qed


lemma wf_operations: "wf_ops (operations batch)"
  by (induction batch) (auto simp: wf_ops_def split: option.splits)

lemma operations_append: "operations (a @ b) = operations a @ operations b"
  by (induction a) (auto split: option.splits)

lemma merge_for_filter:
  "merge_for w ops d = merge_for w (filter (\<lambda>(v, r). v = w) ops) d"
  by (induction ops arbitrary: d) auto

lemma mset_single: "mset xs = mset [x] \<Longrightarrow> xs = [x]"
  by (cases xs) auto

lemma merge_for_once:
  assumes "mset p = mset ops" and "filter (\<lambda>(v, r). v = w) ops = [(w, r)]"
  shows "merge_for w p d = d ++ r"
proof -
  have "mset (filter (\<lambda>(v, r). v = w) p) = mset (filter (\<lambda>(v, r). v = w) ops)"
    using assms(1) by simp
  then have "mset (filter (\<lambda>(v, r). v = w) p) = mset [(w, r)]"
    by (simp only: assms(2))
  then have "filter (\<lambda>(v, r). v = w) p = [(w, r)]"
    by (rule mset_single)
  then show ?thesis using merge_for_filter[of w p d] by simp
qed

lemma wf_ops_mset: "mset p = mset ops \<Longrightarrow> wf_ops p = wf_ops ops"
  using mset_eq_setD[of p ops] by (simp add: wf_ops_def)

lemma update_one_length:
  "length (fst (update_one v r ds)) = length ds + snd (update_one v r ds)"
  by (induction ds) (auto split: prod.splits)

lemma execute_length:
  "length (fst (execute ops ds)) = length ds + snd (execute ops ds)"
proof (induction ops arbitrary: ds)
  case Nil
  then show ?case by simp
next
  case (Cons op ops)
  obtain v r where op: "op = (v, r)" by (cases op)
  obtain ds1 n where u: "update_one v r ds = (ds1, n)" by (cases "update_one v r ds")
  obtain ds2 m where e: "execute ops ds1 = (ds2, m)" by (cases "execute ops ds1")
  show ?case
    using Cons.IH[of ds1] update_one_length[of v r ds]
    by (simp add: op u e)
qed

lemma update_one_count:
  "snd (update_one v r ds) = (if lookup_doc v ds = None then 1 else 0)"
  by (induction ds) (auto simp: lookup_doc_def split: prod.splits)

lemma execute_count:
  "wf_ops ops \<Longrightarrow>
   snd (execute ops ds) = card {w \<in> fst ` set ops. lookup_doc w ds = None}"
proof (induction ops arbitrary: ds)
  case Nil
  then show ?case by simp
next
  case (Cons op ops)
  obtain v r where op: "op = (v, r)" by (cases op)
  from Cons.prems have wf: "wf_ops ops" and r: "r ''report_number'' = Some v"
    by (auto simp: wf_ops_def op)
  let ?ds1 = "fst (update_one v r ds)"
  define T where "T = {w \<in> fst ` set ops. lookup_doc w ds = None} - {v}"
  have T: "v \<notin> T" "finite T" by (simp_all add: T_def)
  have A: "{w \<in> fst ` set ops. lookup_doc w ?ds1 = None} = T"
    using r by (auto simp: T_def lookup_update_one[where r=r and v=v])
  have B: "{w \<in> fst ` set (op # ops). lookup_doc w ds = None} =
      (if lookup_doc v ds = None then insert v T else T)"
    by (auto simp: op T_def)
  have "snd (execute (op # ops) ds) = snd (update_one v r ds) + snd (execute ops ?ds1)"
    by (simp add: op split: prod.splits)
  also have "\<dots> = (if lookup_doc v ds = None then 1 else 0) + card T"
    using Cons.IH[OF wf, of ?ds1] by (simp add: update_one_count A)
  also have "\<dots> = card {w \<in> fst ` set (op # ops). lookup_doc w ds = None}"
    unfolding B using T by simp
  finally show ?case .
qed


lemma upd_firsts_length: "length (upd_firsts g seen ds) = length ds"
  by (induction ds arbitrary: seen) (auto split: option.splits)

lemma upd_firsts_take: "take n (upd_firsts g seen ds) = upd_firsts g seen (take n ds)"
proof (induction ds arbitrary: n seen)
  case Nil
  then show ?case by simp
next
  case (Cons d ds)
  then show ?case by (cases n) (auto split: option.splits)
qed

lemma update_one_none:
  "lookup_doc v ds = None \<Longrightarrow> update_one v r ds = (ds @ [[''report_number'' \<mapsto> v] ++ r], 1)"
  by (rule update_one_absent) (auto simp: lookup_doc_def find_None_iff)

lemma update_one_take:
  "take (length ds) (fst (update_one v r ds)) = upd_firsts (\<lambda>w d. if w = v then d ++ r else d) {} ds"
proof (cases "lookup_doc v ds")
  case None
  have "upd_firsts (\<lambda>w d. if w = v then d ++ r else d) {} ds = ds"
    by (rule upd_firsts_fixed) (use None in auto)
  then show ?thesis using update_one_none[OF None] by simp
next
  case (Some d)
  then have "update_one v r ds = (upd_firsts (\<lambda>w d. if w = v then d ++ r else d) {} ds, 0)"
    by (intro update_one_upd_firsts) auto
  then show ?thesis by (simp add: upd_firsts_length)
qed

lemma execute_take:
  "wf_ops ops \<Longrightarrow>
   take (length ds) (fst (execute ops ds)) = upd_firsts (\<lambda>w. merge_for w ops) {} ds"
proof (induction ops arbitrary: ds)
  case Nil
  have "upd_firsts (\<lambda>w d. d) {} ds = ds" by (rule upd_firsts_fixed) simp
  then show ?case by simp
next
  case (Cons op ops)
  obtain v r where op: "op = (v, r)" by (cases op)
  from Cons.prems have wf: "wf_ops ops" and r: "r ''report_number'' = Some v"
    by (auto simp: wf_ops_def op)
  let ?ds1 = "fst (update_one v r ds)"
  let ?g = "\<lambda>w d. if w = v then d ++ r else d"
  have len: "length ds \<le> length ?ds1" using update_one_length[of v r ds] by simp
  have "take (length ds) (fst (execute (op # ops) ds)) = take (length ds) (fst (execute ops ?ds1))"
    by (simp add: op split: prod.splits)
  also have "\<dots> = take (length ds) (take (length ?ds1) (fst (execute ops ?ds1)))"
    using len by (simp add: min_def)
  also have "\<dots> = take (length ds) (upd_firsts (\<lambda>w. merge_for w ops) {} ?ds1)"
    by (simp only: Cons.IH[OF wf])
  also have "\<dots> = upd_firsts (\<lambda>w. merge_for w ops) {} (take (length ds) ?ds1)"
    by (rule upd_firsts_take)
  also have "\<dots> = upd_firsts (\<lambda>w. merge_for w ops) {} (upd_firsts ?g {} ds)"
    by (simp only: update_one_take)
  also have "\<dots> = upd_firsts (\<lambda>w d. merge_for w ops (?g w d)) {} ds"
    by (rule upd_firsts_fuse) (use r in \<open>auto simp: map_add_def\<close>)
  also have "(\<lambda>w d. merge_for w ops (?g w d)) = (\<lambda>w. merge_for w (op # ops))"
    by (auto simp: op fun_eq_iff)
  finally show ?case .
qed

lemma execute_present_count:
  assumes "wf_ops ops" and "\<forall>v \<in> fst ` set ops. lookup_doc v T \<noteq> None"
  shows "snd (execute ops T) = 0"
  using execute_present[OF assms] by simp

lemma execute_again_any_order:
  assumes wf: "wf_ops p1" and p: "mset p2 = mset p1"
  shows "snd (execute p2 (fst (execute p1 ds))) = 0"
proof -
  have wf2: "wf_ops p2" using wf wf_ops_mset[OF p] by simp
  have "set p2 = set p1" using mset_eq_setD[OF p] .
  then have "\<forall>v \<in> fst ` set p2. lookup_doc v (fst (execute p1 ds)) \<noteq> None"
    by (simp add: lookup_execute[OF wf])
  then show ?thesis by (rule execute_present_count[OF wf2])
qed

lemma distinct_keys_filter:
  "distinct (map fst ops) \<Longrightarrow> (w, r) \<in> set ops \<Longrightarrow> filter (\<lambda>(v, r). v = w) ops = [(w, r)]"
proof (induction ops)
  case Nil
  then show ?case by simp
next
  case (Cons op ops)
  show ?case
  proof (cases "fst op = w")
    case True
    with Cons.prems have "op = (w, r)" by (cases op) (auto simp: image_iff)
    moreover from True Cons.prems have "filter (\<lambda>(v, r). v = w) ops = []"
      by (auto simp: filter_empty_conv image_iff)
    ultimately show ?thesis by simp
  next
    case False
    with Cons show ?thesis by (cases op) auto
  qed
qed

lemma execute_again_distinct:
  assumes wf: "wf_ops p1" and p: "mset p2 = mset p1" and d: "distinct (map fst p1)"
  shows "execute p2 (fst (execute p1 ds)) = (fst (execute p1 ds), 0)"
proof -
  let ?T = "fst (execute p1 ds)"
  have wf2: "wf_ops p2" using wf wf_ops_mset[OF p] by simp
  have s: "set p2 = set p1" using mset_eq_setD[OF p] .
  have pres: "\<forall>v \<in> fst ` set p2. lookup_doc v ?T \<noteq> None"
    by (simp add: s lookup_execute[OF wf])
  have "upd_firsts (\<lambda>w. merge_for w p2) {} ?T = ?T"
  proof (rule upd_firsts_fixed)
    fix v e assume l: "lookup_doc v ?T = Some e"
    show "merge_for v p2 e = e"
    proof (cases "v \<in> fst ` set p1")
      case False
      then show ?thesis using s by (simp add: merge_for_notin)
    next
      case True
      then obtain r where r: "(v, r) \<in> set p1" by auto
      have f: "filter (\<lambda>(w, r). w = v) p1 = [(v, r)]" by (rule distinct_keys_filter[OF d r])
      have "e = merge_for v p1 (base_doc v ds)" using l True by (simp add: lookup_execute[OF wf])
      also have "\<dots> = base_doc v ds ++ r" by (rule merge_for_once[OF refl f])
      finally have e: "e = base_doc v ds ++ r" .
      have "merge_for v p2 e = e ++ r" by (rule merge_for_once[OF p f])
      also have "\<dots> = base_doc v ds ++ (r ++ r)" by (simp add: e)
      also have "\<dots> = e" by (simp only: map_add_self e)
      finally show ?thesis .
    qed
  qed
  then show ?thesis using execute_present[OF wf2 pres] by simp
qed


lemma operations_set:
  "set (operations batch) = {(v, r). r \<in> set batch \<and> r ''report_number'' = Some v}"
  by (induction batch) (auto split: option.splits)

lemma unordered_Nil: "unordered order \<Longrightarrow> order [] = []"
  using mset_zero_iff by (fastforce simp: unordered_def)

lemma upsert_batch_execute:
  "unordered order \<Longrightarrow> upsert_batch order batch ds = execute (order (operations batch)) ds"
  by (simp add: upsert_batch_def bulk_write_def Let_def unordered_Nil)

lemma ex_keys:
  "ex_record ''report_number'' = Some ''2025-000001''"
  "ex_new ''report_number'' = Some ''2025-000002''"
  "ex_nokey ''report_number'' = None"
  "ex_stored ''report_number'' = Some ''2025-000001''"
  "ex_other ''report_number'' = Some ''2024-000009''"
  by (simp_all add: ex_record_def ex_new_def ex_nokey_def ex_stored_def ex_other_def)

lemma ex_operations:
  "operations ex_page = [(''2025-000001'', ex_record), (''2025-000002'', ex_new)]"
  by (simp add: ex_page_def ex_keys)

lemma ex_upsert:
  "upsert_batch in_reverse_order ex_page ex_sink = ([ex_other, ex_stored ++ ex_record, ex_new], 1)"
  by (simp add: upsert_batch_def bulk_write_def in_reverse_order_def ex_operations ex_sink_def
      ex_keys new_doc_eq)

subsection \<open>The claim about the upsert sink\<close>

text \<open>
  C1, as stated, fails: a stored document with the key of the fetched record keeps the
  fields that the record does not mention, so the result is not the record. (For a page of
  one record every order of execution is the same.)
\<close>

theorem upsert_full_replacement_counterexample:
  "fst (upsert_batch in_list_order [ex_record] [ex_stored]) \<noteq> [ex_record]"
proof
  assume "fst (upsert_batch in_list_order [ex_record] [ex_stored]) = [ex_record]"
  then have "ex_stored ++ ex_record = ex_record"
    by (simp add: upsert_batch_def bulk_write_def in_list_order_def ex_keys)
  then have "(ex_stored ++ ex_record) ''precinct'' = ex_record ''precinct''"
    by simp
  then show False
    by (simp add: ex_record_def ex_stored_def)
qed

text \<open>
  C1 (amended), for every page \<open>batch\<close>, every sink \<open>ds\<close> and every order in which the store
  executes the operations. Each record with a \<open>report_number\<close> \<open>v\<close> ends up in the first
  document with that key: that document is the one stored before (a new one when there
  was none) with the fields of the page's records of key \<open>v\<close> set on it in the order of
  execution (\<open>merge_for\<close>). When \<open>v\<close> occurs once in the page this means: an absent key is
  inserted as the record itself, and a present key has the record merged into the stored
  document \<open>d\<close>, every field of the record set and every other field of \<open>d\<close> kept
  (\<open>d ++ r\<close>). Documents of other keys are untouched, the documents stored before keep
  their places (each first document of a key of the page merged, the others unchanged), no
  document is deleted, and the count is the number of keys of the page that were absent.
  Writing the same page again, in whatever order, creates no document, and when the page
  does not repeat a key it leaves the sink unchanged.
\<close>

theorem upsert_sink_merge:
  assumes "unordered order" and "unordered order'"
  shows "(\<forall>r \<in> set batch. \<forall>v. r ''report_number'' = Some v \<longrightarrow>
            lookup_doc v (fst (upsert_batch order batch ds)) =
              Some (merge_for v (order (operations batch)) (base_doc v ds)) \<and>
            (filter (\<lambda>(w, r'). w = v) (operations batch) = [(v, r)] \<longrightarrow>
               (lookup_doc v ds = None \<longrightarrow>
                  lookup_doc v (fst (upsert_batch order batch ds)) = Some r) \<and>
               (\<forall>d. lookup_doc v ds = Some d \<longrightarrow>
                  lookup_doc v (fst (upsert_batch order batch ds)) = Some (d ++ r))))
       \<and> (\<forall>w. w \<notin> fst ` set (operations batch) \<longrightarrow>
            lookup_doc w (fst (upsert_batch order batch ds)) = lookup_doc w ds)
       \<and> take (length ds) (fst (upsert_batch order batch ds)) =
            upd_firsts (\<lambda>w. merge_for w (order (operations batch))) {} ds
       \<and> length (fst (upsert_batch order batch ds)) = length ds + snd (upsert_batch order batch ds)
       \<and> snd (upsert_batch order batch ds) =
            card {w \<in> fst ` set (operations batch). lookup_doc w ds = None}
       \<and> snd (upsert_batch order' batch (fst (upsert_batch order batch ds))) = 0
       \<and> (distinct (map fst (operations batch)) \<longrightarrow>
            upsert_batch order' batch (fst (upsert_batch order batch ds)) =
              (fst (upsert_batch order batch ds), 0))"
proof -
  let ?ops = "operations batch"
  let ?p = "order ?ops"
  let ?T = "fst (execute ?p ds)"
  have m: "mset ?p = mset ?ops" using assms(1) by (simp add: unordered_def)
  have m': "mset (order' ?ops) = mset ?p" using assms(2) m by (simp add: unordered_def)
  have s: "set ?p = set ?ops" using mset_eq_setD[OF m] .
  have wf: "wf_ops ?p" using wf_ops_mset[OF m] wf_operations by simp
  note e = upsert_batch_execute[OF assms(1)] upsert_batch_execute[OF assms(2)]
  have look: "lookup_doc w ?T =
      (if w \<in> fst ` set ?ops then Some (merge_for w ?p (base_doc w ds)) else lookup_doc w ds)" for w
    using lookup_execute[OF wf, of w ds] s by simp
  have 1: "\<forall>r \<in> set batch. \<forall>v. r ''report_number'' = Some v \<longrightarrow>
            lookup_doc v ?T = Some (merge_for v ?p (base_doc v ds)) \<and>
            (filter (\<lambda>(w, r'). w = v) ?ops = [(v, r)] \<longrightarrow>
               (lookup_doc v ds = None \<longrightarrow> lookup_doc v ?T = Some r) \<and>
               (\<forall>d. lookup_doc v ds = Some d \<longrightarrow> lookup_doc v ?T = Some (d ++ r)))"
  proof (intro ballI allI impI conjI)
    fix r v assume r: "r \<in> set batch" "r ''report_number'' = Some v"
    then have "(v, r) \<in> set ?ops" by (simp add: operations_set)
    then have k: "v \<in> fst ` set ?ops" by force
    show l: "lookup_doc v ?T = Some (merge_for v ?p (base_doc v ds))"
      using look[of v] k by simp
    assume f: "filter (\<lambda>(w, r'). w = v) ?ops = [(v, r)]"
    have mo: "merge_for v ?p (base_doc v ds) = base_doc v ds ++ r"
      by (rule merge_for_once[OF m f])
    show "lookup_doc v ?T = Some r" if "lookup_doc v ds = None"
      using l mo that new_doc_eq[where r=r and v=v] r(2) by (simp add: base_doc_def)
    show "lookup_doc v ?T = Some (d ++ r)" if "lookup_doc v ds = Some d" for d
      using l mo that by (simp add: base_doc_def)
  qed
  have 2: "\<forall>w. w \<notin> fst ` set ?ops \<longrightarrow> lookup_doc w ?T = lookup_doc w ds"
    using look by simp
  have 3: "take (length ds) ?T = upd_firsts (\<lambda>w. merge_for w ?p) {} ds"
    by (rule execute_take[OF wf])
  have 4: "length ?T = length ds + snd (execute ?p ds)"
    by (rule execute_length)
  have 5: "snd (execute ?p ds) = card {w \<in> fst ` set ?ops. lookup_doc w ds = None}"
    using execute_count[OF wf, of ds] s by simp
  have 6: "snd (execute (order' ?ops) ?T) = 0"
    by (rule execute_again_any_order[OF wf m'])
  have 7: "distinct (map fst ?ops) \<longrightarrow> execute (order' ?ops) ?T = (?T, 0)"
  proof
    assume "distinct (map fst ?ops)"
    moreover have "mset (map fst ?p) = mset (map fst ?ops)" using m by simp
    ultimately have "distinct (map fst ?p)" using mset_eq_imp_distinct_iff by blast
    then show "execute (order' ?ops) ?T = (?T, 0)"
      by (rule execute_again_distinct[OF wf m'])
  qed
  show ?thesis
    unfolding e using 1 2 3 4 5 6 7 by (intro conjI)
qed


text \<open>
  The theorem at the page of three records and the sink of two documents, the first write
  executed in reverse order and the second in list order.
\<close>

lemma ex_orders: "unordered in_reverse_order" "unordered in_list_order"
  by (simp_all add: unordered_def in_reverse_order_def in_list_order_def)

lemma ex_lookups:
  "lookup_doc ''2025-000001'' ex_sink = Some ex_stored"
  "lookup_doc ''2025-000002'' ex_sink = None"
  "lookup_doc ''2024-000009'' ex_sink = Some ex_other"
  by (simp_all add: lookup_doc_def ex_sink_def ex_keys)

theorem upsert_sink_merge_witness:
  "unordered in_reverse_order \<and> unordered in_list_order
   \<and> ex_record \<in> set ex_page \<and> ex_record ''report_number'' = Some ''2025-000001''
   \<and> filter (\<lambda>(w, r'). w = ''2025-000001'') (operations ex_page) = [(''2025-000001'', ex_record)]
   \<and> lookup_doc ''2025-000001'' ex_sink = Some ex_stored
   \<and> lookup_doc ''2025-000001'' (fst (upsert_batch in_reverse_order ex_page ex_sink)) =
        Some (ex_stored ++ ex_record)
   \<and> ex_new \<in> set ex_page \<and> ex_new ''report_number'' = Some ''2025-000002''
   \<and> filter (\<lambda>(w, r'). w = ''2025-000002'') (operations ex_page) = [(''2025-000002'', ex_new)]
   \<and> lookup_doc ''2025-000002'' ex_sink = None
   \<and> lookup_doc ''2025-000002'' (fst (upsert_batch in_reverse_order ex_page ex_sink)) = Some ex_new
   \<and> ''2024-000009'' \<notin> fst ` set (operations ex_page)
   \<and> lookup_doc ''2024-000009'' (fst (upsert_batch in_reverse_order ex_page ex_sink)) = Some ex_other
   \<and> length (fst (upsert_batch in_reverse_order ex_page ex_sink)) =
        length ex_sink + snd (upsert_batch in_reverse_order ex_page ex_sink)
   \<and> upsert_batch in_reverse_order ex_page ex_sink = ([ex_other, ex_stored ++ ex_record, ex_new], 1)
   \<and> distinct (map fst (operations ex_page))
   \<and> upsert_batch in_list_order ex_page (fst (upsert_batch in_reverse_order ex_page ex_sink)) =
        (fst (upsert_batch in_reverse_order ex_page ex_sink), 0)"
proof -
  note t = upsert_sink_merge[OF ex_orders, of ex_page ex_sink]
  note t1 = t[THEN conjunct1]
  note t2 = t[THEN conjunct2, THEN conjunct1]
  note t4 = t[THEN conjunct2, THEN conjunct2, THEN conjunct2, THEN conjunct1]
  note t7 = t[THEN conjunct2, THEN conjunct2, THEN conjunct2, THEN conjunct2, THEN conjunct2,
      THEN conjunct2]
  have m1: "ex_record \<in> set ex_page" and m2: "ex_new \<in> set ex_page"
    by (simp_all add: ex_page_def)
  have f1: "filter (\<lambda>(w, r'). w = ''2025-000001'') (operations ex_page) = [(''2025-000001'', ex_record)]"
    and f2: "filter (\<lambda>(w, r'). w = ''2025-000002'') (operations ex_page) = [(''2025-000002'', ex_new)]"
    by (simp_all add: ex_operations)
  have n: "''2024-000009'' \<notin> fst ` set (operations ex_page)"
    by (simp add: ex_operations)
  have d: "distinct (map fst (operations ex_page))"
    by (simp add: ex_operations)
  have a: "lookup_doc ''2025-000001'' (fst (upsert_batch in_reverse_order ex_page ex_sink)) =
        Some (ex_stored ++ ex_record)"
    using t1[THEN bspec, OF m1, THEN spec, of "''2025-000001''", THEN mp, OF ex_keys(1),
        THEN conjunct2, THEN mp, OF f1, THEN conjunct2, THEN spec, of ex_stored, THEN mp,
        OF ex_lookups(1)] .
  have b: "lookup_doc ''2025-000002'' (fst (upsert_batch in_reverse_order ex_page ex_sink)) = Some ex_new"
    using t1[THEN bspec, OF m2, THEN spec, of "''2025-000002''", THEN mp, OF ex_keys(2),
        THEN conjunct2, THEN mp, OF f2, THEN conjunct1, THEN mp, OF ex_lookups(2)] .
  have c: "lookup_doc ''2024-000009'' (fst (upsert_batch in_reverse_order ex_page ex_sink)) = Some ex_other"
    using t2[THEN spec, of "''2024-000009''", THEN mp, OF n] by (simp only: ex_lookups)
  have e: "upsert_batch in_list_order ex_page (fst (upsert_batch in_reverse_order ex_page ex_sink)) =
        (fst (upsert_batch in_reverse_order ex_page ex_sink), 0)"
    using t7[THEN mp, OF d] .
  show ?thesis
    by (intro conjI) (rule ex_orders m1 m2 f1 f2 n d a b c e t4 ex_keys ex_lookups ex_upsert)+
qed

section \<open>Properties of the cleaning pipeline\<close>

subsection \<open>The heap run and the function of the input frame\<close>

lemma sim_new:
  "simulates K k \<Longrightarrow> simulates (\<lambda>a h. and_then (new_from f a h) K) (\<lambda>df. then_e (f df) k)"
  by (auto simp: simulates_def and_then_def new_from_def then_e_def view_def split: sum.splits)

lemma sim_in_place:
  "simulates K k \<Longrightarrow> simulates (\<lambda>a h. and_then (in_place f a h) K) (\<lambda>df. then_e (f df) k)"
  by (auto simp: simulates_def and_then_def in_place_def then_e_def view_def split: sum.splits)

lemma sim_read:
  "(\<And>v. simulates (K v) (k v)) \<Longrightarrow>
   simulates (\<lambda>a h. and_then (read_from g a h) (\<lambda>v h. K v a h)) (\<lambda>df. then_e (g df) (\<lambda>v. k v df))"
  by (auto simp: simulates_def and_then_def read_from_def then_e_def view_def split: sum.splits)

lemma sim_check:
  "(\<And>b. simulates (K b) (k b)) \<Longrightarrow>
   simulates (\<lambda>a h. and_then (check_duplicates a h) (\<lambda>(b, a) h. K b a h))
     (\<lambda>df. case deduplicated df of (b, df) \<Rightarrow> k b df)"
  by (auto simp: simulates_def and_then_def check_duplicates_def read_from_def new_from_def
      deduplicated_def view_def Let_def split: sum.splits)

lemma sim_validate:
  "(\<And>v i. simulates (K v i) (k v i)) \<Longrightarrow>
   simulates (\<lambda>a h. and_then (validate_offense_date lib a h) (\<lambda>(a, v, i) h. K v i a h))
     (\<lambda>df. then_e (validated lib df) (\<lambda>(df, v, i). k v i df))"
  by (auto simp: simulates_def and_then_def validate_offense_date_def validated_def read_from_def
      new_from_def in_place_def then_e_def view_def nth_append split: sum.splits prod.splits)

lemma sim_done: "simulates (\<lambda>a h. (Inr (a, M (h ! a)), h)) (\<lambda>df. Inr (df, M df))"
  by (simp add: simulates_def view_def)

lemma clean_simulates:
  "simulates (\<lambda>a h. clean_and_analyze_crime_data lib a h) (\<lambda>df. clean_frame lib df)"
  unfolding clean_and_analyze_crime_data_def clean_frame_def
  by (intro sim_new sim_in_place sim_read sim_check sim_validate sim_done)

lemma clean_view:
  "inp < length h \<Longrightarrow> view (clean_and_analyze_crime_data lib inp h) = clean_frame lib (h ! inp)"
  using clean_simulates[of lib] by (simp add: simulates_def)


lemma keeps_new:
  "keeps K \<Longrightarrow> keeps (\<lambda>a h. and_then (new_from f a h) K)"
  unfolding keeps_def
proof (intro allI impI)
  fix n a and h :: heap
  assume K: "\<forall>n a h. n \<le> a \<and> a < length h \<longrightarrow> take n (snd (K a h)) = take n h"
    and a: "n \<le> a \<and> a < length h"
  show "take n (snd (and_then (new_from f a h) K)) = take n h"
  proof (cases "f (h ! a)")
    case (Inl e)
    then show ?thesis by (simp add: and_then_def new_from_def)
  next
    case (Inr df)
    have "take n (snd (K (length h) (h @ [df]))) = take n (h @ [df])"
      using K a by simp
    with a Inr show ?thesis by (simp add: and_then_def new_from_def)
  qed
qed

lemma keeps_in_place:
  "keeps K \<Longrightarrow> keeps (\<lambda>a h. and_then (in_place f a h) K)"
  unfolding keeps_def
proof (intro allI impI)
  fix n a and h :: heap
  assume K: "\<forall>n a h. n \<le> a \<and> a < length h \<longrightarrow> take n (snd (K a h)) = take n h"
    and a: "n \<le> a \<and> a < length h"
  show "take n (snd (and_then (in_place f a h) K)) = take n h"
  proof (cases "f (h ! a)")
    case (Inl e)
    then show ?thesis by (simp add: and_then_def in_place_def)
  next
    case (Inr df)
    have "take n (snd (K a (h[a := df]))) = take n (h[a := df])"
      using K a by simp
    with a Inr show ?thesis by (simp add: and_then_def in_place_def)
  qed
qed

lemma keeps_read:
  "(\<And>v. keeps (K v)) \<Longrightarrow> keeps (\<lambda>a h. and_then (read_from g a h) (\<lambda>v h. K v a h))"
  unfolding keeps_def
  by (auto simp: and_then_def read_from_def split: sum.splits)

lemma keeps_if:
  "keeps K1 \<Longrightarrow> keeps K2 \<Longrightarrow> keeps (\<lambda>a h. if b then K1 a h else K2 a h)"
  unfolding keeps_def by auto

lemma keeps_done: "keeps (\<lambda>a h. (r a h, h))"
  by (simp add: keeps_def)

lemma keeps_check:
  assumes "\<And>b. keeps (K b)"
  shows "keeps (\<lambda>a h. and_then (check_duplicates a h) (\<lambda>(b, a) h. K b a h))"
proof -
  have "keeps (\<lambda>a h. and_then (read_from (\<lambda>df. Inr (any_true (duplicated df))) a h) (\<lambda>v h.
          if v then and_then (new_from (\<lambda>df. Inr (drop_duplicates df)) a h) (K v) else K v a h))"
    by (intro keeps_read keeps_if keeps_new assms)
  moreover have "(\<lambda>a h. and_then (check_duplicates a h) (\<lambda>(b, a) h. K b a h)) =
    (\<lambda>a h. and_then (read_from (\<lambda>df. Inr (any_true (duplicated df))) a h) (\<lambda>v h.
          if v then and_then (new_from (\<lambda>df. Inr (drop_duplicates df)) a h) (K v) else K v a h))"
    by (intro ext) (simp add: check_duplicates_def and_then_def read_from_def new_from_def)
  ultimately show ?thesis by simp
qed

lemma keeps_validate:
  assumes "\<And>v i. keeps (K v i)"
  shows "keeps (\<lambda>a h. and_then (validate_offense_date lib a h) (\<lambda>(a, v, i) h. K v i a h))"
proof -
  have "keeps (\<lambda>a h. and_then (read_from (offense_dates lib) a h) (\<lambda>v h.
          and_then (in_place (assign_dates (snd (snd v))) a h) (\<lambda>a h.
          and_then (new_from (dropna_subset ''offense_date'') a h) (K (fst v) (fst (snd v))))))"
    by (intro keeps_read keeps_in_place keeps_new assms)
  then have *: "\<And>n a h. n \<le> a \<Longrightarrow> a < length h \<Longrightarrow>
     take n (snd (and_then (read_from (offense_dates lib) a h) (\<lambda>v h.
          and_then (in_place (assign_dates (snd (snd v))) a h) (\<lambda>a h.
          and_then (new_from (dropna_subset ''offense_date'') a h) (K (fst v) (fst (snd v))))))) = take n h"
    by (simp add: keeps_def)
  have **: "\<And>n a h. n \<le> a \<Longrightarrow> a < length h \<Longrightarrow> take n (snd (K 0 0 a h)) = take n h"
    using assms[of 0 0] by (simp add: keeps_def)
  show ?thesis
    unfolding keeps_def
  proof (intro allI impI)
    fix n a and h :: heap
    assume a: "n \<le> a \<and> a < length h"
    show "take n (snd (and_then (validate_offense_date lib a h) (\<lambda>(a, v, i) h. K v i a h))) = take n h"
    proof (cases "''offense_date'' \<in> set (columns (h ! a))")
      case True
      have "and_then (validate_offense_date lib a h) (\<lambda>(a, v, i) h. K v i a h) =
        and_then (read_from (offense_dates lib) a h) (\<lambda>v h.
          and_then (in_place (assign_dates (snd (snd v))) a h) (\<lambda>a h.
          and_then (new_from (dropna_subset ''offense_date'') a h) (K (fst v) (fst (snd v)))))"
        using True
        by (auto simp: validate_offense_date_def and_then_def read_from_def in_place_def new_from_def
            split: sum.splits prod.splits)
      with *[of n a h] a show ?thesis by simp
    next
      case False
      with **[of n a h] a show ?thesis by (simp add: validate_offense_date_def and_then_def)
    qed
  qed
qed

lemma copy_keeps:
  assumes "keeps K"
  shows "take (length h) (snd (and_then (new_from Inr inp h) K)) = h"
proof -
  have "take (length h) (snd (K (length h) (h @ [h ! inp]))) = take (length h) (h @ [h ! inp])"
    using assms unfolding keeps_def by simp
  then show ?thesis by (simp add: and_then_def new_from_def)
qed

lemma clean_input_kept:
  "take (length h) (snd (clean_and_analyze_crime_data lib inp h)) = h"
  unfolding clean_and_analyze_crime_data_def
  by (intro copy_keeps keeps_new keeps_in_place keeps_read keeps_check keeps_validate keeps_done)

lemma clean_input_same:
  assumes "inp < length h"
  shows "snd (clean_and_analyze_crime_data lib inp h) ! inp = h ! inp"
proof -
  have "take (length h) (snd (clean_and_analyze_crime_data lib inp h)) ! inp = h ! inp"
    by (simp only: clean_input_kept)
  with assms show ?thesis by simp
qed

subsection \<open>Selections are filters\<close>

lemma select_map:
  "map snd (filter fst (zip (map P rs) rs)) = filter P rs"
  by (induction rs) auto

lemma select_rows_filter:
  "select_rows (map P (rows df)) df = df\<lparr>rows := filter P (rows df)\<rparr>"
  by (simp add: select_rows_def select_map)

lemma select_rows_columns: "columns (select_rows keep df) = columns df"
  by (simp add: select_rows_def)

lemma select_rows_subset: "set (rows (select_rows keep df)) \<subseteq> set (rows df)"
  by (auto simp: select_rows_def dest: set_zip_rightD)

lemma where_ne_eq:
  "where_ne name s df =
     (case column_index name df of
        Inl e \<Rightarrow> Inl e
      | Inr i \<Rightarrow> Inr (df\<lparr>rows := filter (\<lambda>(k, r). r ! i \<noteq> Str s) (rows df)\<rparr>))"
proof (cases "column_index name df")
  case (Inl e)
  then show ?thesis by (simp add: where_ne_def ne_str_def get_column_def)
next
  case (Inr i)
  then show ?thesis
    by (simp add: where_ne_def ne_str_def get_column_def select_rows_filter comp_def case_prod_unfold)
qed

lemma where_latitude_eq:
  "where_latitude df =
     (case column_index ''latitude'' df of
        Inl e \<Rightarrow> Inl e
      | Inr i \<Rightarrow> Inr (df\<lparr>rows := filter (\<lambda>(k, r). r ! i \<noteq> Str ''REDACTED'' \<and> r ! i \<noteq> Str ''-1.0'') (rows df)\<rparr>))"
proof (cases "column_index ''latitude'' df")
  case (Inl e)
  then show ?thesis by (simp add: where_latitude_def ne_str_def get_column_def)
next
  case (Inr i)
  have "map (\<lambda>(a, b). a \<and> b)
          (zip (map (\<lambda>c. c \<noteq> Str ''REDACTED'') (map (\<lambda>(k, r). r ! i) (rows df)))
               (map (\<lambda>c. c \<noteq> Str ''-1.0'') (map (\<lambda>(k, r). r ! i) (rows df))))
        = map (\<lambda>(k, r). r ! i \<noteq> Str ''REDACTED'' \<and> r ! i \<noteq> Str ''-1.0'') (rows df)"
    by (simp add: zip_map_map case_prod_unfold zip_same_conv_map)
  with Inr show ?thesis
    by (simp add: where_latitude_def ne_str_def get_column_def select_rows_filter)
qed

lemma where_coordinates_eq:
  "where_coordinates df =
     (case column_index ''longitude'' df of
        Inl e \<Rightarrow> Inl e
      | Inr j \<Rightarrow>
          (case column_index ''latitude'' df of
             Inl e \<Rightarrow> Inl e
           | Inr i \<Rightarrow> Inr (df\<lparr>rows := filter (\<lambda>(k, r). \<not> (eq_zero (r ! j) \<and> eq_zero (r ! i))) (rows df)\<rparr>)))"
proof (cases "column_index ''longitude'' df")
  case (Inl e)
  then show ?thesis by (simp add: where_coordinates_def get_column_def)
next
  case j: (Inr j)
  show ?thesis
  proof (cases "column_index ''latitude'' df")
    case (Inl e)
    with j show ?thesis by (simp add: where_coordinates_def get_column_def)
  next
    case (Inr i)
    have "map (\<lambda>(x, y). \<not> (eq_zero x \<and> eq_zero y))
            (zip (map (\<lambda>(k, r). r ! j) (rows df)) (map (\<lambda>(k, r). r ! i) (rows df)))
          = map (\<lambda>(k, r). \<not> (eq_zero (r ! j) \<and> eq_zero (r ! i))) (rows df)"
      by (simp add: zip_map_map case_prod_unfold zip_same_conv_map)
    with j Inr show ?thesis
      by (simp add: where_coordinates_def get_column_def select_rows_filter)
  qed
qed

lemma dropna_eq: "dropna df = df\<lparr>rows := filter (\<lambda>(k, r). \<not> list_ex isna r) (rows df)\<rparr>"
  by (simp add: dropna_def select_rows_filter)

lemma dropna_subset_eq:
  "dropna_subset name df =
     (case column_index name df of
        Inl e \<Rightarrow> Inl e
      | Inr i \<Rightarrow> Inr (df\<lparr>rows := filter (\<lambda>(k, r). \<not> isna (r ! i)) (rows df)\<rparr>))"
proof (cases "column_index name df")
  case (Inl e)
  then show ?thesis by (simp add: dropna_subset_def get_column_def)
next
  case (Inr i)
  then show ?thesis
    by (simp add: dropna_subset_def get_column_def select_rows_filter comp_def case_prod_unfold)
qed


lemma then_e_Inr: "then_e m f = Inr y \<Longrightarrow> \<exists>x. m = Inr x \<and> f x = Inr y"
  by (auto simp: then_e_def split: sum.splits)

lemma clean_frame_steps:
  assumes "clean_frame lib df0 = Inr (out, m)"
  obtains df1 b1 df2 b2 df3 df4 df5 df6 df7 df8 df10 df11 v n where
    "rename_columns df0 = Inr df1"
    "deduplicated df1 = (b1, df2)"
    "deduplicated df2 = (b2, df3)"
    "where_ne ''crime_against_category'' ''-'' df3 = Inr df4"
    "where_ne ''precinct'' ''-'' df4 = Inr df5"
    "where_latitude df5 = Inr df6"
    "to_float lib ''latitude'' df6 = Inr df7"
    "to_float lib ''longitude'' df7 = Inr df8"
    "where_ne ''crime_against_category'' ''NOT_A_CRIME'' (dropna df8) = Inr df10"
    "where_coordinates df10 = Inr df11"
    "validated lib df11 = Inr (out, v, n)"
    "duplicates_removed m = b2"
    "valid_offense_datetime_records m = v"
    "invalid_offense_datetime_records m = n"
    "rows_after_cleaning m = length (rows out)"
proof -
  obtain df1 where 1: "rename_columns df0 = Inr df1" by (simp add: rename_columns_def)
  obtain b1 df2 where 2: "deduplicated df1 = (b1, df2)" by (cases "deduplicated df1")
  obtain b2 df3 where 3: "deduplicated df2 = (b2, df3)" by (cases "deduplicated df2")
  from assms have a: "then_e (where_ne ''crime_against_category'' ''-'' df3) (\<lambda>df.
     then_e (where_ne ''precinct'' ''-'' df) (\<lambda>df.
     then_e (category_counts df) (\<lambda>crime_category_counts_before.
     then_e (where_latitude df) (\<lambda>df.
     then_e (to_float lib ''latitude'' df) (\<lambda>df.
     then_e (to_float lib ''longitude'' df) (\<lambda>df.
     then_e (Inr (dropna df)) (\<lambda>df.
     then_e (where_ne ''crime_against_category'' ''NOT_A_CRIME'' df) (\<lambda>df.
     then_e (where_coordinates df) (\<lambda>df.
     then_e (validated lib df) (\<lambda>(df, valid_dt, invalid_dt).
     then_e (category_counts df) (\<lambda>crime_category_counts_after.
       Inr (df,
            \<lparr>rows_after_cleaning = length (rows df),
             duplicates_removed = b2,
             valid_offense_datetime_records = valid_dt,
             invalid_offense_datetime_records = invalid_dt,
             distribution_before = crime_category_counts_before,
             distribution_after = crime_category_counts_after\<rparr>)))))))))))) = Inr (out, m)"
    by (simp add: clean_frame_def 1 2 3 then_e_def)
  from then_e_Inr[OF a] obtain df4 where 4: "where_ne ''crime_against_category'' ''-'' df3 = Inr df4"
    and a4: "then_e (where_ne ''precinct'' ''-'' df4) (\<lambda>df.
     then_e (category_counts df) (\<lambda>crime_category_counts_before.
     then_e (where_latitude df) (\<lambda>df.
     then_e (to_float lib ''latitude'' df) (\<lambda>df.
     then_e (to_float lib ''longitude'' df) (\<lambda>df.
     then_e (Inr (dropna df)) (\<lambda>df.
     then_e (where_ne ''crime_against_category'' ''NOT_A_CRIME'' df) (\<lambda>df.
     then_e (where_coordinates df) (\<lambda>df.
     then_e (validated lib df) (\<lambda>(df, valid_dt, invalid_dt).
     then_e (category_counts df) (\<lambda>crime_category_counts_after.
       Inr (df,
            \<lparr>rows_after_cleaning = length (rows df),
             duplicates_removed = b2,
             valid_offense_datetime_records = valid_dt,
             invalid_offense_datetime_records = invalid_dt,
             distribution_before = crime_category_counts_before,
             distribution_after = crime_category_counts_after\<rparr>))))))))))) = Inr (out, m)"
    by blast
  from a4 show ?thesis
    using that[OF 1 2 3 4]
    by (auto dest!: then_e_Inr)
qed

subsection \<open>Duplicates\<close>

lemma duplicated_from_kept:
  "set seen' \<subseteq> set seen \<Longrightarrow>
   \<not> list_ex (\<lambda>b. b) (duplicated_from seen'
        (map snd (filter fst (zip (map Not (duplicated_from seen rs)) rs))))"
proof (induction rs arbitrary: seen seen')
  case Nil
  then show ?case by simp
next
  case (Cons r rs)
  show ?case
  proof (cases "list_ex (same_row r) seen")
    case True
    have "set seen' \<subseteq> set (r # seen)" using Cons.prems by auto
    from Cons.IH[OF this] True show ?thesis by simp
  next
    case False
    have a: "set (r # seen') \<subseteq> set (r # seen)" using Cons.prems by auto
    have "\<not> list_ex (same_row r) seen'"
      using False Cons.prems by (auto simp: list_ex_iff)
    with Cons.IH[OF a] False show ?thesis by simp
  qed
qed

lemma filter_zip_snd:
  "map (snd \<circ> snd) (filter fst (zip keep rs)) = map snd (filter fst (zip keep (map snd rs)))"
proof (induction keep arbitrary: rs)
  case Nil
  then show ?case by simp
next
  case (Cons b keep)
  then show ?case by (cases rs) auto
qed

lemma drop_duplicates_clean: "\<not> any_true (duplicated (drop_duplicates df))"
  using duplicated_from_kept[of "[]" "[]" "map snd (rows df)"]
  by (simp add: any_true_def duplicated_def drop_duplicates_def select_rows_def filter_zip_snd)


lemma deduplicated_twice:
  assumes "deduplicated df = (b1, df2)" and "deduplicated df2 = (b2, df3)"
  shows "\<not> b2"
proof (cases "any_true (duplicated df)")
  case True
  with assms(1) have "df2 = drop_duplicates df" by (auto simp: deduplicated_def)
  then have "\<not> any_true (duplicated df2)" by (simp add: drop_duplicates_clean)
  with assms(2) show ?thesis by (auto simp: deduplicated_def)
next
  case False
  with assms(1) have "df2 = df" by (auto simp: deduplicated_def)
  with assms(2) False show ?thesis by (auto simp: deduplicated_def)
qed

lemma clean_frame_flag:
  assumes "clean_frame lib df0 = Inr (out, m)"
  shows "\<not> duplicates_removed m"
proof -
  from assms obtain df1 b1 df2 b2 df3 where
    "deduplicated df1 = (b1, df2)" "deduplicated df2 = (b2, df3)" "duplicates_removed m = b2"
    by (rule clean_frame_steps)
  then show ?thesis using deduplicated_twice by simp
qed

lemma view_Inr:
  "fst res = Inr (a, m) \<Longrightarrow> view res = Inr (snd res ! a, m)"
  by (cases res) (simp add: view_def)

subsection \<open>Coordinates\<close>

lemma column_index_nth:
  "column_index name df = Inr i \<Longrightarrow> i < length (columns df) \<and> columns df ! i = name"
proof -
  assume a: "column_index name df = Inr i"
  then have "positions name (columns df) = [i]"
    by (auto simp: column_index_def split: list.splits)
  then have "i \<in> set (positions name (columns df))" by simp
  then show ?thesis by (simp add: positions_def)
qed

lemma column_index_cong:
  "columns df = columns df' \<Longrightarrow> column_index name df = column_index name df'"
  by (simp add: column_index_def)

lemma column_index_positions:
  "column_index name df = Inr i \<Longrightarrow> positions name (columns df) = [i]"
  by (auto simp: column_index_def split: list.splits)

lemma set_column_eq:
  "column_index name df = Inr i \<Longrightarrow>
   set_column name vals df = df\<lparr>rows := map (\<lambda>((k, r), v). (k, r[i := v])) (zip (rows df) vals)\<rparr>"
  by (simp add: set_column_def column_index_positions)

text \<open>The steps keep the columns.\<close>

lemma where_ne_columns: "where_ne name s df = Inr df' \<Longrightarrow> columns df' = columns df"
  by (auto simp: where_ne_eq split: sum.splits)

lemma where_ne_rows: "where_ne name s df = Inr df' \<Longrightarrow> set (rows df') \<subseteq> set (rows df)"
  by (auto simp: where_ne_eq split: sum.splits)

lemma deduplicated_columns: "deduplicated df = (b, df') \<Longrightarrow> columns df' = columns df"
  by (auto simp: deduplicated_def Let_def drop_duplicates_def select_rows_columns split: if_splits)

lemma deduplicated_rows: "deduplicated df = (b, df') \<Longrightarrow> set (rows df') \<subseteq> set (rows df)"
  using select_rows_subset
  by (auto simp: deduplicated_def Let_def drop_duplicates_def split: if_splits)

lemma to_float_columns: "to_float lib name df = Inr df' \<Longrightarrow> columns df' = columns df"
  by (auto simp: to_float_def get_column_def set_column_eq split: sum.splits)

lemma in_set_zip_map:
  "(k, r') \<in> set (map (\<lambda>((k, r), v). (k, f r v)) (zip rs vals)) \<Longrightarrow>
   \<exists>r v. (k, r) \<in> set rs \<and> r' = f r v"
  by (auto dest: set_zip_leftD)

lemma to_float_rows:
  assumes "to_float lib name df = Inr df'" and "(k, r') \<in> set (rows df')"
  shows "\<exists>i r v. column_index name df = Inr i \<and> (k, r) \<in> set (rows df) \<and> r' = r[i := v]"
proof -
  from assms(1) obtain i vals where i: "column_index name df = Inr i"
    and d: "df' = df\<lparr>rows := map (\<lambda>((k, r), v). (k, r[i := v])) (zip (rows df) vals)\<rparr>"
    by (auto simp: to_float_def get_column_def set_column_eq split: sum.splits)
  from assms(2) d have "(k, r') \<in> set (map (\<lambda>((k, r), v). (k, r[i := v])) (zip (rows df) vals))"
    by simp
  from in_set_zip_map[OF this] i show ?thesis by blast
qed

lemma astype_float_Flt:
  "astype_float lib cs = Inr vs \<Longrightarrow> \<forall>v \<in> set vs. \<exists>w. v = Flt w"
proof (induction cs arbitrary: vs)
  case Nil
  then show ?case by simp
next
  case (Cons c cs)
  then show ?case by (auto split: sum.splits cell.splits option.splits)
qed

lemma in_set_zip_map2:
  "(k, r') \<in> set (map (\<lambda>((k, r), v). (k, f r v)) (zip rs vals)) \<Longrightarrow>
   \<exists>r v. (k, r) \<in> set rs \<and> v \<in> set vals \<and> r' = f r v"
  by (auto dest: set_zip_leftD set_zip_rightD)

lemma to_float_rows_Flt:
  assumes "to_float lib name df = Inr df'" and "(k, r') \<in> set (rows df')"
  shows "\<exists>i r w. column_index name df = Inr i \<and> (k, r) \<in> set (rows df) \<and> r' = r[i := Flt w]"
proof -
  from assms(1) obtain i col vals where i: "column_index name df = Inr i"
    and a: "astype_float lib col = Inr vals"
    and d: "df' = df\<lparr>rows := map (\<lambda>((k, r), v). (k, r[i := v])) (zip (rows df) vals)\<rparr>"
    by (auto simp: to_float_def get_column_def set_column_eq split: sum.splits)
  from assms(2) d have "(k, r') \<in> set (map (\<lambda>((k, r), v). (k, r[i := v])) (zip (rows df) vals))"
    by simp
  from in_set_zip_map2[OF this] obtain r v where r: "(k, r) \<in> set (rows df)" "v \<in> set vals" "r' = r[i := v]"
    by blast
  from astype_float_Flt[OF a] r(2) obtain w where "v = Flt w" by auto
  with r i show ?thesis by auto
qed

lemma validated_columns: "validated lib df = Inr (out, v, n) \<Longrightarrow> columns out = columns df"
  by (auto simp: validated_def then_e_def assign_dates_def offense_dates_def get_column_def
      set_column_eq dropna_subset_eq column_index_def[of _ "_\<lparr>rows := _\<rparr>"]
      split: if_splits sum.splits prod.splits list.splits)

lemma validated_rows:
  assumes "validated lib df = Inr (out, v, n)" and "(k, r') \<in> set (rows out)"
  shows "\<exists>r. (k, r) \<in> set (rows df) \<and>
           (r' = r \<or> (\<exists>d c. column_index ''offense_date'' df = Inr d \<and> r' = r[d := c]))"
proof (cases "''offense_date'' \<in> set (columns df)")
  case False
  with assms show ?thesis by (auto simp: validated_def)
next
  case True
  with assms(1) obtain d vals df1 where d: "column_index ''offense_date'' df = Inr d"
    and df1: "df1 = df\<lparr>rows := map (\<lambda>((k, r), v). (k, r[d := v])) (zip (rows df) vals)\<rparr>"
    and out: "dropna_subset ''offense_date'' df1 = Inr out"
    by (auto simp: validated_def then_e_def assign_dates_def offense_dates_def get_column_def
        set_column_eq split: sum.splits prod.splits)
  have "column_index ''offense_date'' df1 = Inr d"
    using d column_index_cong[of df1 df] by (simp add: df1)
  with out have "set (rows out) \<subseteq> set (rows df1)"
    by (auto simp: dropna_subset_eq)
  with assms(2) have "(k, r') \<in> set (map (\<lambda>((k, r), v). (k, r[d := v])) (zip (rows df) vals))"
    by (auto simp: df1)
  from in_set_zip_map[OF this] d show ?thesis by blast
qed

lemma rename_columns_eq:
  "rename_columns df = Inr df' \<Longrightarrow>
   columns df' = map normalize_column (columns df) \<and> rows df' = rows df"
  by (auto simp: rename_columns_def)

lemma where_latitude_rows:
  assumes "where_latitude df = Inr df'"
  shows "\<exists>i. column_index ''latitude'' df = Inr i \<and> columns df' = columns df \<and>
     (\<forall>(k, r) \<in> set (rows df'). (k, r) \<in> set (rows df) \<and>
        r ! i \<noteq> Str ''REDACTED'' \<and> r ! i \<noteq> Str ''-1.0'')"
  using assms by (auto simp: where_latitude_eq split: sum.splits)

lemma where_coordinates_rows:
  assumes "where_coordinates df = Inr df'"
  shows "\<exists>i j. column_index ''latitude'' df = Inr i \<and> column_index ''longitude'' df = Inr j \<and>
     columns df' = columns df \<and>
     (\<forall>(k, r) \<in> set (rows df'). (k, r) \<in> set (rows df) \<and> \<not> (eq_zero (r ! j) \<and> eq_zero (r ! i)))"
  using assms by (auto simp: where_coordinates_eq split: sum.splits)

lemma dropna_rows: "columns (dropna df) = columns df \<and> set (rows (dropna df)) \<subseteq> set (rows df)"
  by (auto simp: dropna_eq)

lemma column_index_distinct:
  "column_index a df = Inr i \<Longrightarrow> column_index b df = Inr j \<Longrightarrow> a \<noteq> b \<Longrightarrow> i \<noteq> j"
  using column_index_nth by blast

lemma clean_frame_coordinates:
  assumes run: "clean_frame lib df0 = Inr (out, m)" and rect: "rectangular df0"
  shows "\<exists>i j. column_index ''latitude'' out = Inr i \<and> column_index ''longitude'' out = Inr j \<and>
     (\<forall>(k, r') \<in> set (rows out).
        (\<exists>x y. r' ! i = Flt x \<and> r' ! j = Flt y \<and> \<not> (is_zero x \<and> is_zero y)) \<and>
        (\<exists>r. (k, r) \<in> set (rows df0) \<and> r ! i \<noteq> Str ''REDACTED'' \<and> r ! i \<noteq> Str ''-1.0''))"
proof -
  from run obtain df1 b1 df2 b2 df3 df4 df5 df6 df7 df8 df10 df11 v n where
    s1: "rename_columns df0 = Inr df1" and
    s2: "deduplicated df1 = (b1, df2)" and
    s3: "deduplicated df2 = (b2, df3)" and
    s4: "where_ne ''crime_against_category'' ''-'' df3 = Inr df4" and
    s5: "where_ne ''precinct'' ''-'' df4 = Inr df5" and
    s6: "where_latitude df5 = Inr df6" and
    s7: "to_float lib ''latitude'' df6 = Inr df7" and
    s8: "to_float lib ''longitude'' df7 = Inr df8" and
    s10: "where_ne ''crime_against_category'' ''NOT_A_CRIME'' (dropna df8) = Inr df10" and
    s11: "where_coordinates df10 = Inr df11" and
    s12: "validated lib df11 = Inr (out, v, n)"
    by (rule clean_frame_steps)
  note r1 = rename_columns_eq[OF s1]
  have c5: "columns df5 = columns df1"
    using deduplicated_columns[OF s2] deduplicated_columns[OF s3] where_ne_columns[OF s4]
      where_ne_columns[OF s5] by simp
  have rows5: "set (rows df5) \<subseteq> set (rows df0)"
    using deduplicated_rows[OF s2] deduplicated_rows[OF s3] where_ne_rows[OF s4]
      where_ne_rows[OF s5] r1 by auto
  from where_latitude_rows[OF s6] obtain i where i5: "column_index ''latitude'' df5 = Inr i"
    and c6: "columns df6 = columns df5"
    and rows6: "\<forall>(k, r) \<in> set (rows df6). (k, r) \<in> set (rows df5) \<and>
        r ! i \<noteq> Str ''REDACTED'' \<and> r ! i \<noteq> Str ''-1.0''"
    by blast
  have c7: "columns df7 = columns df6" by (rule to_float_columns[OF s7])
  have c8: "columns df8 = columns df7" by (rule to_float_columns[OF s8])
  have c10: "columns df10 = columns df8" using where_ne_columns[OF s10] dropna_rows[of df8] by simp
  from where_coordinates_rows[OF s11] obtain i' j where i10: "column_index ''latitude'' df10 = Inr i'"
    and j10: "column_index ''longitude'' df10 = Inr j"
    and c11: "columns df11 = columns df10"
    and rows11: "\<forall>(k, r) \<in> set (rows df11). (k, r) \<in> set (rows df10) \<and>
        \<not> (eq_zero (r ! j) \<and> eq_zero (r ! i'))"
    by blast
  have cout: "columns out = columns df11" by (rule validated_columns[OF s12])
  have call: "columns df6 = columns df5" "columns df7 = columns df5" "columns df8 = columns df5"
    "columns df10 = columns df5" "columns df11 = columns df5" "columns out = columns df5"
    using c6 c7 c8 c10 c11 cout by simp_all
  have ii: "i' = i" using i10 i5 column_index_cong[OF call(4), of "''latitude''"] by simp
  have idx: "column_index ''latitude'' df = Inr i \<and> column_index ''longitude'' df = Inr j"
    if "columns df = columns df5" for df
    using that i5 j10 column_index_cong[OF that] column_index_cong[OF call(4)] by simp
  have ij: "i \<noteq> j"
    using idx[OF refl] column_index_distinct[of "''latitude''" df5 i "''longitude''" j] by simp
  have ilen: "i < length (columns df5)" "j < length (columns df5)"
    using idx[OF refl] column_index_nth by blast+
  have len0: "length (columns df5) = length (columns df0)" using c5 r1 by simp
  show ?thesis
  proof (intro exI conjI ballI)
    show "column_index ''latitude'' out = Inr i" using idx[OF call(6)] by simp
    show "column_index ''longitude'' out = Inr j" using idx[OF call(6)] by simp
    fix x assume x: "x \<in> set (rows out)"
    obtain k r' where kr: "x = (k, r')" by (cases x)
    from validated_rows[OF s12] x kr obtain r11 where r11: "(k, r11) \<in> set (rows df11)"
      and r': "r' = r11 \<or> (\<exists>d c. column_index ''offense_date'' df11 = Inr d \<and> r' = r11[d := c])"
      by blast
    have same: "r' ! i = r11 ! i \<and> r' ! j = r11 ! j"
    proof (cases "r' = r11")
      case True
      then show ?thesis by simp
    next
      case False
      with r' obtain d c where d: "column_index ''offense_date'' df11 = Inr d" and rd: "r' = r11[d := c]"
        by blast
      have "d \<noteq> i" "d \<noteq> j"
        using column_index_distinct[OF d, of "''latitude''" i] column_index_distinct[OF d, of "''longitude''" j]
          idx[OF call(5)] by simp_all
      then show ?thesis by (simp add: rd)
    qed
    from rows11 r11 have r10: "(k, r11) \<in> set (rows df10)"
      and nz: "\<not> (eq_zero (r11 ! j) \<and> eq_zero (r11 ! i))" by (auto simp: ii)
    from r10 where_ne_rows[OF s10] dropna_rows[of df8] have r8: "(k, r11) \<in> set (rows df8)" by auto
    from to_float_rows_Flt[OF s8 r8] obtain j' r7 w' where j7: "column_index ''longitude'' df7 = Inr j'"
      and r7: "(k, r7) \<in> set (rows df7)" and e8: "r11 = r7[j' := Flt w']" by blast
    have jj: "j' = j" using j7 idx[OF call(2)] by simp
    from to_float_rows_Flt[OF s7 r7] obtain i'' r6 w where i6: "column_index ''latitude'' df6 = Inr i''"
      and r6: "(k, r6) \<in> set (rows df6)" and e7: "r7 = r6[i'' := Flt w]" by blast
    have i6i: "i'' = i" using i6 idx[OF call(1)] by simp
    from rows6 r6 have r5: "(k, r6) \<in> set (rows df5)"
      and ok: "r6 ! i \<noteq> Str ''REDACTED''" "r6 ! i \<noteq> Str ''-1.0''" by auto
    from r5 rows5 have r0: "(k, r6) \<in> set (rows df0)" by auto
    with rect have "length r6 = length (columns df0)" by (auto simp: rectangular_def)
    with ilen len0 have l: "i < length r6" "j < length r6" by simp_all
    have f: "r11 ! i = Flt w" "r11 ! j = Flt w'"
      using l ij by (simp_all add: e8 e7 jj i6i)
    have "\<exists>x y. r' ! i = Flt x \<and> r' ! j = Flt y \<and> \<not> (is_zero x \<and> is_zero y)"
      using same f nz by auto
    moreover have "\<exists>r. (k, r) \<in> set (rows df0) \<and> r ! i \<noteq> Str ''REDACTED'' \<and> r ! i \<noteq> Str ''-1.0''"
      using r0 ok by blast
    ultimately show "case x of (k, r') \<Rightarrow>
        (\<exists>x y. r' ! i = Flt x \<and> r' ! j = Flt y \<and> \<not> (is_zero x \<and> is_zero y)) \<and>
        (\<exists>r. (k, r) \<in> set (rows df0) \<and> r ! i \<noteq> Str ''REDACTED'' \<and> r ! i \<noteq> Str ''-1.0'')"
      by (simp add: kr)
  qed
qed

subsection \<open>Occurrence timestamps\<close>









subsection \<open>The run at the concrete batch\<close>

lemma ex_clean_frame: "report (clean_frame ex_lib ex_batch) = Inr (ex_cleaned, 1, False, 1, 1)"
  by code_simp

lemma ex_duplicated: "any_true (duplicated ex_batch)"
  by code_simp

lemma ex_clean_run:
  "report (view (clean_and_analyze_crime_data ex_lib 0 [ex_batch])) = Inr (ex_cleaned, 1, False, 1, 1)"
  using clean_view[of 0 "[ex_batch]" ex_lib] ex_clean_frame by simp

lemma report_Inr:
  "report res = Inr (df, n, b, v, i) \<Longrightarrow>
   \<exists>m. res = Inr (df, m) \<and> rows_after_cleaning m = n \<and> duplicates_removed m = b \<and>
       valid_offense_datetime_records m = v \<and> invalid_offense_datetime_records m = i"
  by (auto simp: report_def split: sum.splits)

lemma view_Inr_iff:
  "view res = Inr (df, m) \<Longrightarrow> \<exists>a. fst res = Inr (a, m) \<and> snd res ! a = df"
  by (cases res) (auto simp: view_def split: sum.splits)


lemma ex_rectangular: "rectangular ex_batch" "rectangular ex_dates"
  by (simp_all add: rectangular_def ex_batch_def ex_dates_def ex_columns_def ex_row_def)

lemma ex_indices:
  "column_index ''latitude'' ex_cleaned = Inr 4"
  "column_index ''longitude'' ex_cleaned = Inr 5"
  "column_index ''offense_date'' ex_dates = Inr 0"
  by (simp_all add: column_index_def positions_def ex_cleaned_def ex_dates_def upt_rec[of 0])

subsection \<open>The claims about the cleaning pipeline\<close>

text \<open>
  C7. The claim is that the "Duplicates Removed" entry of the metadata is true exactly when
  the input had an exact duplicate row that was removed. The run computes the flag a second
  time, after the duplicates are gone (line 198), so the entry is false for every input of a
  run that returns, also when rows were removed.
\<close>

theorem duplicates_removed_always_false:
  assumes "inp < length h"
    and "fst (clean_and_analyze_crime_data lib inp h) = Inr (a, m)"
  shows "\<not> duplicates_removed m"
proof -
  have "clean_frame lib (h ! inp) = Inr (snd (clean_and_analyze_crime_data lib inp h) ! a, m)"
    using clean_view[OF assms(1), of lib] view_Inr[OF assms(2)] by simp
  then show ?thesis by (rule clean_frame_flag)
qed

text \<open>
  At the concrete batch, whose second row is an exact copy of the first, the run returns one
  row and reports that no duplicates were removed.
\<close>

theorem duplicates_removed_always_false_witness:
  "0 < length [ex_batch] \<and> any_true (duplicated ex_batch) \<and>
   report (view (clean_and_analyze_crime_data ex_lib 0 [ex_batch])) = Inr (ex_cleaned, 1, False, 1, 1) \<and>
   (case fst (clean_and_analyze_crime_data ex_lib 0 [ex_batch]) of
      Inl e \<Rightarrow> False
    | Inr (a, m) \<Rightarrow> \<not> duplicates_removed m)"
proof -
  from report_Inr[OF ex_clean_run] obtain m where
    "view (clean_and_analyze_crime_data ex_lib 0 [ex_batch]) = Inr (ex_cleaned, m)" by blast
  from view_Inr_iff[OF this] obtain a where
    r: "fst (clean_and_analyze_crime_data ex_lib 0 [ex_batch]) = Inr (a, m)" by blast
  have "\<not> duplicates_removed m"
    by (rule duplicates_removed_always_false[OF _ r]) simp
  with r ex_duplicated ex_clean_run show ?thesis by simp
qed

text \<open>
  C9. The cleaning run is deterministic: two runs on equal input frames, wherever the
  frames are stored and whatever else the heaps hold, end in the same way, either with the
  same error or with equal cleaned frames and equal metadata (so equal rows and equal counts
  of valid and invalid timestamps).
\<close>

theorem cleaning_deterministic:
  assumes "i1 < length h1" and "i2 < length h2" and "h1 ! i1 = h2 ! i2"
  shows "view (clean_and_analyze_crime_data lib i1 h1) = view (clean_and_analyze_crime_data lib i2 h2)"
  using clean_view[OF assms(1), of lib] clean_view[OF assms(2), of lib] assms(3) by simp

theorem cleaning_deterministic_witness:
  "0 < length [ex_batch] \<and> 1 < length [ex_cleaned, ex_batch] \<and>
   [ex_batch] ! 0 = [ex_cleaned, ex_batch] ! 1 \<and>
   view (clean_and_analyze_crime_data ex_lib 0 [ex_batch]) =
   view (clean_and_analyze_crime_data ex_lib 1 [ex_cleaned, ex_batch])"
  using cleaning_deterministic[of 0 "[ex_batch]" 1 "[ex_cleaned, ex_batch]" ex_lib] by simp

text \<open>
  C10. The cleaning run does not change its input: after the run the frame at the address
  that was passed in is the frame that was there before, and so is every other frame that
  existed before the run; all writes of the run go to frames it has made itself.
\<close>

theorem cleaning_keeps_input:
  assumes "inp < length h"
  shows "snd (clean_and_analyze_crime_data lib inp h) ! inp = h ! inp \<and>
         take (length h) (snd (clean_and_analyze_crime_data lib inp h)) = h"
  using clean_input_same[OF assms] clean_input_kept by simp

theorem cleaning_keeps_input_witness:
  "0 < length [ex_batch] \<and>
   snd (clean_and_analyze_crime_data ex_lib 0 [ex_batch]) ! 0 = ex_batch \<and>
   take (length [ex_batch]) (snd (clean_and_analyze_crime_data ex_lib 0 [ex_batch])) = [ex_batch]"
  using cleaning_keeps_input[of 0 "[ex_batch]" ex_lib] by simp

text \<open>
  C6. Every row of the cleaned frame has floats as latitude and longitude that are not both
  zero, and the raw row with the same index label had a latitude that was neither the
  string \<open>REDACTED\<close> nor the string \<open>-1.0\<close>. This holds for every (rectangular) input
  frame on which the run returns.
\<close>

theorem coordinate_filter:
  assumes "inp < length h" and "rectangular (h ! inp)"
    and "report (view (clean_and_analyze_crime_data lib inp h)) = Inr (out, rows_after, flag, valid, invalid)"
  shows "\<exists>i j. column_index ''latitude'' out = Inr i \<and> column_index ''longitude'' out = Inr j \<and>
     (\<forall>(k, r') \<in> set (rows out).
        (\<exists>x y. r' ! i = Flt x \<and> r' ! j = Flt y \<and> \<not> (is_zero x \<and> is_zero y)) \<and>
        (\<exists>r. (k, r) \<in> set (rows (h ! inp)) \<and> r ! i \<noteq> Str ''REDACTED'' \<and> r ! i \<noteq> Str ''-1.0''))"
proof -
  from report_Inr[OF assms(3)] obtain m where
    "view (clean_and_analyze_crime_data lib inp h) = Inr (out, m)" by blast
  then have "clean_frame lib (h ! inp) = Inr (out, m)"
    using clean_view[OF assms(1), of lib] by simp
  then show ?thesis using assms(2) by (rule clean_frame_coordinates)
qed

text \<open>
  At the concrete batch the one row that is left has the index label 0; the rows with a
  redacted latitude and with the coordinates (0.0, 0.0) are gone.
\<close>

theorem coordinate_filter_witness:
  "0 < length [ex_batch] \<and> rectangular ([ex_batch] ! 0) \<and>
   report (view (clean_and_analyze_crime_data ex_lib 0 [ex_batch])) = Inr (ex_cleaned, 1, False, 1, 1) \<and>
   column_index ''latitude'' ex_cleaned = Inr 4 \<and> column_index ''longitude'' ex_cleaned = Inr 5 \<and>
   map fst (rows ex_cleaned) = [0] \<and>
   (\<exists>r' x y. (0, r') \<in> set (rows ex_cleaned) \<and> r' ! 4 = Flt x \<and> r' ! 5 = Flt y \<and>
      \<not> (is_zero x \<and> is_zero y)) \<and>
   (\<exists>r. (0, r) \<in> set (rows ([ex_batch] ! 0)) \<and> r ! 4 \<noteq> Str ''REDACTED'' \<and> r ! 4 \<noteq> Str ''-1.0'')"
proof -
  have r: "rectangular ([ex_batch] ! 0)" by (simp add: ex_rectangular)
  from coordinate_filter[OF _ r ex_clean_run] obtain i j where
    i: "column_index ''latitude'' ex_cleaned = Inr i" and j: "column_index ''longitude'' ex_cleaned = Inr j"
    and a: "\<forall>(k, r') \<in> set (rows ex_cleaned).
        (\<exists>x y. r' ! i = Flt x \<and> r' ! j = Flt y \<and> \<not> (is_zero x \<and> is_zero y)) \<and>
        (\<exists>r. (k, r) \<in> set (rows ([ex_batch] ! 0)) \<and> r ! i \<noteq> Str ''REDACTED'' \<and> r ! i \<noteq> Str ''-1.0'')"
    by auto
  have ij: "i = 4" "j = 5" using i j by (simp_all add: ex_indices)
  obtain r' where r': "(0, r') \<in> set (rows ex_cleaned)" by (simp add: ex_cleaned_def)
  from a r' have
    "(\<exists>x y. r' ! 4 = Flt x \<and> r' ! 5 = Flt y \<and> \<not> (is_zero x \<and> is_zero y)) \<and>
     (\<exists>r. (0, r) \<in> set (rows ([ex_batch] ! 0)) \<and> r ! 4 \<noteq> Str ''REDACTED'' \<and> r ! 4 \<noteq> Str ''-1.0'')"
    unfolding ij by blast
  with r' have
    "(\<exists>r' x y. (0, r') \<in> set (rows ex_cleaned) \<and> r' ! 4 = Flt x \<and> r' ! 5 = Flt y \<and>
        \<not> (is_zero x \<and> is_zero y))"
    "(\<exists>r. (0, r) \<in> set (rows ([ex_batch] ! 0)) \<and> r ! 4 \<noteq> Str ''REDACTED'' \<and> r ! 4 \<noteq> Str ''-1.0'')"
    by blast+
  moreover have "map fst (rows ex_cleaned) = [0]" by (simp add: ex_cleaned_def)
  ultimately show ?thesis using r ex_clean_run ex_indices(1,2) by simp
qed



section \<open>Properties of the ingestion run\<close>

subsection \<open>The checkpoint\<close>

lemma offense_dates_of_set:
  "set (offense_dates_of ds) = {s. \<exists>d \<in> set ds. d ''offense_date'' = Some s}"
  by (induction ds) (auto simp: offense_dates_of_def split: option.splits)

lemma offense_dates_of_Nil:
  "offense_dates_of ds = [] \<longleftrightarrow> (\<forall>d \<in> set ds. d ''offense_date'' = None)"
  by (induction ds) (auto simp: offense_dates_of_def split: option.splits)

lemma latest_None:
  "latest_offense_date ds = None \<longleftrightarrow> (\<forall>d \<in> set ds. d ''offense_date'' = None)"
proof (cases "offense_dates_of ds")
  case Nil
  then have "latest_offense_date ds = None" by (simp add: latest_offense_date_def)
  moreover from Nil have "\<forall>d \<in> set ds. d ''offense_date'' = None"
    by (simp only: offense_dates_of_Nil[symmetric])
  ultimately show ?thesis by simp
next
  case (Cons x xs)
  then have A: "latest_offense_date ds \<noteq> None" by (simp add: latest_offense_date_def)
  from Cons have B: "\<not> (\<forall>d \<in> set ds. d ''offense_date'' = None)"
    by (simp only: offense_dates_of_Nil[symmetric]) simp
  show ?thesis by (simp only: A B simp_thms)
qed

lemma latest_Some:
  assumes "latest_offense_date ds = Some s"
  shows "(\<exists>d \<in> set ds. d ''offense_date'' = Some s) \<and>
         (\<forall>d \<in> set ds. \<forall>s'. d ''offense_date'' = Some s' \<longrightarrow> s' \<le> s)"
proof -
  from assms obtain x xs where x: "offense_dates_of ds = x # xs" and s: "s = fold max xs x"
    by (auto simp: latest_offense_date_def split: list.splits)
  have m: "s = Max (set (offense_dates_of ds))"
    unfolding x s using Max.set_eq_fold[of x xs] by simp
  have ne: "set (offense_dates_of ds) \<noteq> {}" by (simp add: x)
  have "s \<in> set (offense_dates_of ds)" unfolding m by (rule Max_in) (use ne in auto)
  moreover have "\<forall>s' \<in> set (offense_dates_of ds). s' \<le> s" unfolding m by auto
  ultimately show ?thesis by (auto simp: offense_dates_of_set)
qed

subsection \<open>The requests of a run\<close>






lemma fails_last_cast: "fails_last e reqs (Inl f :: fault + 'a) \<Longrightarrow> fails_last e reqs (Inl f :: fault + 'b)"
  by (simp add: fails_last_def)

lemma fails_last_Inr: "fails_last e reqs (Inr x :: fault + 'a) \<Longrightarrow> fails_last e reqs (Inr y :: fault + 'b)"
  by (simp add: fails_last_def)


lemma fails_last_ok: "fails_last e reqs (Inr x :: fault + 'a) \<Longrightarrow> fails_last e reqs (res :: fault + 'b)"
  by (simp add: fails_last_def)




subsection \<open>The concrete runs\<close>

lemma ex_latest: "latest_offense_date (sink ex_world) = Some ''2025-01-01T10:00:00.000''"
  by code_simp

lemma ex_sink_undated: "latest_offense_date ex_sink = None"
  by (simp add: latest_offense_date_def offense_dates_of_def ex_sink_def ex_other_def ex_stored_def)



subsection \<open>The claims about the ingestion run\<close>

text \<open>
  C2. The checkpoint is the greatest stored value of \<open>offense_date\<close>, if a document has one.
  The start date is the date of that value plus one day, and the fixed date 2025-01-01 when
  no document has an \<open>offense_date\<close>. When the start date is later than the current UTC
  date, the run returns normally with the outcome "no new data" and leaves the world as it
  was: no request is sent and the sink is not written.
\<close>

theorem checkpoint_resolver:
  "(latest_offense_date (sink w) = None \<longleftrightarrow> (\<forall>d \<in> set (sink w). d ''offense_date'' = None))
   \<and> (\<forall>s. latest_offense_date (sink w) = Some s \<longrightarrow>
         (\<exists>d \<in> set (sink w). d ''offense_date'' = Some s) \<and>
         (\<forall>d \<in> set (sink w). \<forall>s'. d ''offense_date'' = Some s' \<longrightarrow> s' \<le> s))
   \<and> (latest_offense_date (sink w) = None \<longrightarrow> start_date e (sink w) = Inr first_run_date)
   \<and> (\<forall>s day. latest_offense_date (sink w) = Some s \<and> to_date e s = Inr day \<and> day < max_date \<longrightarrow>
         start_date e (sink w) = Inr (day + 1))
   \<and> (\<forall>start. start_date e (sink w) = Inr start \<and> today e < start \<longrightarrow>
         fetch_crime_data e w = Some (Inr (NoNewData (today e) (start - 1)), w))"
proof (intro conjI allI impI)
  show "latest_offense_date (sink w) = None \<longleftrightarrow> (\<forall>d \<in> set (sink w). d ''offense_date'' = None)"
    by (rule latest_None)
next
  fix s assume "latest_offense_date (sink w) = Some s"
  from latest_Some[OF this]
  show "\<exists>d \<in> set (sink w). d ''offense_date'' = Some s"
    and "\<forall>d \<in> set (sink w). \<forall>s'. d ''offense_date'' = Some s' \<longrightarrow> s' \<le> s"
    by blast+
next
  assume "latest_offense_date (sink w) = None"
  then show "start_date e (sink w) = Inr first_run_date" by (simp add: start_date_def)
next
  fix s day assume "latest_offense_date (sink w) = Some s \<and> to_date e s = Inr day \<and> day < max_date"
  then show "start_date e (sink w) = Inr (day + 1)" by (simp add: start_date_def add_day_def)
next
  fix start assume "start_date e (sink w) = Inr start \<and> today e < start"
  then show "fetch_crime_data e w = Some (Inr (NoNewData (today e) (start - 1)), w)"
    by (simp add: fetch_crime_data_def)
qed

theorem checkpoint_resolver_witness:
  "latest_offense_date (sink ex_world) = Some ''2025-01-01T10:00:00.000''
   \<and> to_date ex_env ''2025-01-01T10:00:00.000'' = Inr 739252 \<and> 739252 < max_date
   \<and> start_date ex_env (sink ex_world) = Inr (739252 + 1)
   \<and> today ex_env < 739252 + 1
   \<and> fetch_crime_data ex_env ex_world = Some (Inr (NoNewData (today ex_env) (739252 + 1 - 1)), ex_world)
   \<and> latest_offense_date (sink ex_world_fail) = None
   \<and> start_date ex_env (sink ex_world_fail) = Inr first_run_date"
proof -
  note t = checkpoint_resolver[of ex_world ex_env]
  note t4 = t[THEN conjunct2, THEN conjunct2, THEN conjunct2, THEN conjunct1]
  note t5 = t[THEN conjunct2, THEN conjunct2, THEN conjunct2, THEN conjunct2]
  note u3 = checkpoint_resolver[of ex_world_fail ex_env, THEN conjunct2, THEN conjunct2, THEN conjunct1]
  have a: "to_date ex_env ''2025-01-01T10:00:00.000'' = Inr 739252"
    by (simp add: ex_env_def ex_to_date_def)
  have b: "(739252 :: nat) < max_date" by (simp add: max_date_def)
  have c: "start_date ex_env (sink ex_world) = Inr (739252 + 1)"
    by (rule t4[THEN spec, of "''2025-01-01T10:00:00.000''", THEN spec, of 739252, THEN mp])
      (intro conjI; rule ex_latest a b)
  have d: "today ex_env < 739252 + 1" by (simp add: ex_env_def)
  have e: "fetch_crime_data ex_env ex_world = Some (Inr (NoNewData (today ex_env) (739252 + 1 - 1)), ex_world)"
    by (rule t5[THEN spec, of "739252 + 1", THEN mp]) (intro conjI; rule c d)
  have f: "latest_offense_date (sink ex_world_fail) = None"
    by (simp add: ex_world_fail_def ex_sink_undated)
  have g: "start_date ex_env (sink ex_world_fail) = Inr first_run_date"
    by (rule u3[THEN mp, OF f])
  from ex_latest a b c d e f g show ?thesis by (intro conjI)
qed



text \<open>
  C5. The claim is that the run retrieves every record whose occurrence timestamp falls in
  the 24 hours of a date of the range. The window of a page request ends at 23:59:59 of
  the date (line 76), so a record of the last second of the day, here at 23:59:59.500 of
  2025-01-01, is in no window: with 2025-01-01 as the start and the current date, the run
  sends one request, gets an empty page, and returns with nothing stored.
\<close>

theorem last_second_not_fetched:
  "date_of ex_late_time = 739252 \<and>
   fetch_crime_data ex_env_late ex_world_empty =
     Some (Inr (Completed 739252 0 739252), \<lparr>sink = [], log = [page_request 739252 0]\<rparr>)"
proof -
  have 1: "date_of ex_late_time = 739252"
    by (simp add: date_of_def ex_late_time_def at_time_def)
  have 2: "soda [(ex_late_time, ex_late)] (page_request 739252 0) = Inr []"
    by (simp add: soda_def page_request_def ex_late_time_def at_time_def)
  have "fetch_crime_data ex_env_late ex_world_empty =
     Some (Inr (Completed 739252 0 739252), \<lparr>sink = [], log = [page_request 739252 0]\<rparr>)"
    apply (simp add: fetch_crime_data_def start_date_def ex_world_empty_def
        latest_offense_date_def offense_dates_of_def ex_env_late_def first_run_date_def)
    apply (subst day_loop.simps)
    apply (subst page_loop.simps)
    apply (simp add: Let_def 2 add_day_def max_date_def)
    apply (subst day_loop.simps)
    apply simp
    done
  with 1 show ?thesis by simp
qed

end
